theory Spec2Isabelle
  imports Main "HOL-Library.Word"
begin

section \<open>The map-reduce summarisation graph of summax.js\<close>

text \<open>
  The program splits a document into chunks, asks a language model for a summary of
  each chunk, and merges the summaries under a length budget (\<^verbatim>\<open>tokenMax\<close>) until one
  final summary is left. The steps are nodes of a state graph; which node runs next is
  decided by \<^verbatim>\<open>shouldCollapse\<close>.

  What the embedding makes explicit:
  \<^item> a JavaScript string is a list of UTF-16 code units, so that \<open>length\<close> is the
    \<^verbatim>\<open>.length\<close> the source reads;
  \<^item> a call of the language model is an effect: the model is a function of the calls
    made so far and of the prompt, it may fail, and every call is appended to a log;
  \<^item> an \<^verbatim>\<open>async\<close> function is the function of its awaited result; a rejected promise
    is the \<open>Inl\<close> of a sum;
  \<^item> the tasks of one step of the graph run at the same time: all of them call the
    model, and the order in which they complete is given by the times at which the
    calls come back;
  \<^item> the mutable globals \<^verbatim>\<open>tokenMax\<close> and the option \<^verbatim>\<open>recursionLimit\<close> are fields
    of a configuration, with the source's values as the default.
\<close>

subsection \<open>Strings, documents and the state channels\<close>

type_synonym code_unit = "16 word"
type_synonym jsstring = "code_unit list"

text \<open>\<^verbatim>\<open>new Document({ pageContent: summary })\<close>: the source reads no other field.\<close>

record document =
  pageContent :: jsstring

text \<open>
  \<^verbatim>\<open>OverallState\<close> (lines 131-138): four channels. \<^verbatim>\<open>finalSummary\<close> is unset until
  the last node writes it. \<^verbatim>\<open>summaries\<close> and \<^verbatim>\<open>collapsedSummaries\<close> are read only
  after a node has written them, so that the empty list stands for the unset channel.
\<close>

record OverallState =
  contents :: "jsstring list"
  summaries :: "jsstring list"
  collapsedSummaries :: "document list"
  finalSummary :: "jsstring option"

text \<open>
  The object a node returns holds the channels it writes; a key that is absent from
  the object is \<open>None\<close>.
\<close>

record update =
  upd_contents :: "jsstring list option"
  upd_summaries :: "jsstring list option"
  upd_collapsedSummaries :: "document list option"
  upd_finalSummary :: "jsstring option"

definition no_update :: update where
  "no_update = \<lparr>upd_contents = None, upd_summaries = None,
                 upd_collapsedSummaries = None, upd_finalSummary = None\<rparr>"

text \<open>
  Applying a returned object to the state: \<^verbatim>\<open>summaries\<close> has the reducer
  \<^verbatim>\<open>(state, update) => state.concat(update)\<close>, every other channel keeps the last
  value written.
\<close>

definition apply_update :: "OverallState \<Rightarrow> update \<Rightarrow> OverallState" where
  "apply_update s u =
     \<lparr>contents = (case upd_contents u of None \<Rightarrow> contents s | Some c \<Rightarrow> c),
      summaries = (case upd_summaries u of None \<Rightarrow> summaries s | Some x \<Rightarrow> summaries s @ x),
      collapsedSummaries =
        (case upd_collapsedSummaries u of None \<Rightarrow> collapsedSummaries s | Some d \<Rightarrow> d),
      finalSummary =
        (case upd_finalSummary u of None \<Rightarrow> finalSummary s | Some f \<Rightarrow> Some f)\<rparr>"

record config =
  tokenMax :: int
  recursionLimit :: nat

text \<open>\<^verbatim>\<open>let tokenMax = 1500\<close> (line 65) and \<^verbatim>\<open>{ recursionLimit: 10 }\<close> (line 187).\<close>

definition default_config :: config where
  "default_config = \<lparr>tokenMax = 1500, recursionLimit = 10\<rparr>"

subsection \<open>The length function (lines 66-73)\<close>

text \<open>\<^verbatim>\<open>doc.pageContent.length\<close>\<close>

definition tokenCount :: "document \<Rightarrow> int" where
  "tokenCount doc = int (length (pageContent doc))"

text \<open>
  \<^verbatim>\<open>tokenCounts.reduce((sum, count) => sum + count, 0)\<close> over the mapped counts.
  The counts are lengths of strings held in memory, far below \<open>2 ^ 53\<close>, where the
  source's number addition is the addition of integers.
\<close>

definition lengthFunction :: "document list \<Rightarrow> int" where
  "lengthFunction documents =
     (let tokenCounts = map tokenCount documents
      in foldl (\<lambda>sum count. sum + count) 0 tokenCounts)"

subsection \<open>The language model and its prompts\<close>

datatype error =
  UpstreamError \<comment> \<open>the promise of \<^verbatim>\<open>llm.invoke\<close> is rejected\<close>
| CollapseLimitExceeded \<comment> \<open>the graph runtime gives up at \<^verbatim>\<open>recursionLimit\<close>\<close>

text \<open>
  A prompt is one of the two fixed templates with its variable filled in:
  \<^verbatim>\<open>mapPrompt.invoke({ context: state.content })\<close> and
  \<^verbatim>\<open>reducePrompt.invoke({ docs: input })\<close>.
\<close>

datatype prompt = MapPrompt jsstring | ReducePrompt "document list"

type_synonym log = "prompt list"

text \<open>
  The model answers a prompt with a text (\<^verbatim>\<open>String(response.content)\<close>) or its promise
  is rejected (\<open>None\<close>); the answer may depend on the calls made before.
\<close>

type_synonym llm = "log \<Rightarrow> prompt \<Rightarrow> jsstring option"

text \<open>A computation that calls the model: it reads the log and returns the longer log.\<close>

type_synonym 'a eff = "log \<Rightarrow> (error + 'a) \<times> log"

definition return_eff :: "'a \<Rightarrow> 'a eff" where
  "return_eff a lg = (Inr a, lg)"

text \<open>\<^verbatim>\<open>await\<close>: a rejection ends the enclosing function with the same error.\<close>

definition bind_eff :: "'a eff \<Rightarrow> ('a \<Rightarrow> 'b eff) \<Rightarrow> 'b eff" where
  "bind_eff m f lg = (case m lg of (Inl e, lg') \<Rightarrow> (Inl e, lg') | (Inr a, lg') \<Rightarrow> f a lg')"

definition llm_invoke :: "llm \<Rightarrow> prompt \<Rightarrow> jsstring eff" where
  "llm_invoke model p lg =
     (case model lg p of None \<Rightarrow> (Inl UpstreamError, lg @ [p]) | Some text \<Rightarrow> (Inr text, lg @ [p]))"

subsection \<open>The nodes\<close>

text \<open>\<^verbatim>\<open>generateSummary\<close> (lines 48-55), run on \<^verbatim>\<open>{ content }\<close>.\<close>

definition generateSummary :: "llm \<Rightarrow> jsstring \<Rightarrow> update eff" where
  "generateSummary model content =
     bind_eff (llm_invoke model (MapPrompt content))
       (\<lambda>summary. return_eff (no_update\<lparr>upd_summaries := Some [summary]\<rparr>))"

text \<open>\<^verbatim>\<open>collectSummaries\<close> (lines 57-63)\<close>

definition collectSummaries :: "OverallState \<Rightarrow> update eff" where
  "collectSummaries state =
     return_eff (no_update\<lparr>upd_collapsedSummaries :=
       Some (map (\<lambda>summary. \<lparr>pageContent = summary\<rparr>) (summaries state))\<rparr>)"

text \<open>\<^verbatim>\<open>_reduce\<close> (lines 99-103)\<close>

definition reduce' :: "llm \<Rightarrow> document list \<Rightarrow> jsstring eff" where
  "reduce' model input = llm_invoke model (ReducePrompt input)"

text \<open>\<^verbatim>\<open>generateFinalSummary\<close> (lines 106-109)\<close>

definition generateFinalSummary :: "llm \<Rightarrow> OverallState \<Rightarrow> update eff" where
  "generateFinalSummary model state =
     bind_eff (reduce' model (collapsedSummaries state))
       (\<lambda>response. return_eff (no_update\<lparr>upd_finalSummary := Some response\<rparr>))"

text \<open>
  Modelled from the spec: \<^verbatim>\<open>collapseDocs\<close>, imported from the langchain package,
  whose body is not among the sources. Section 4.4: the reducer delegates to the
  combine function and returns "its output wrapped as a new SummaryUnit".
\<close>

definition collapseDocs :: "document list \<Rightarrow> (document list \<Rightarrow> jsstring eff) \<Rightarrow> document eff" where
  "collapseDocs docs combineDocumentFunc =
     bind_eff (combineDocumentFunc docs) (\<lambda>result. return_eff \<lparr>pageContent = result\<rparr>)"

text \<open>
  The loop of \<^verbatim>\<open>collapseSummaries\<close> (lines 117-123): the sub-lists are reduced one
  after the other, each awaited before the next, and each result is pushed to the end
  of \<^verbatim>\<open>results\<close>.
\<close>

fun collapse_loop :: "llm \<Rightarrow> document list list \<Rightarrow> document list \<Rightarrow> document list eff" where
  "collapse_loop model [] results = return_eff results"
| "collapse_loop model (docList # docLists) results =
     bind_eff (collapseDocs docList (reduce' model))
       (\<lambda>collapsed. collapse_loop model docLists (results @ [collapsed]))"

text \<open>
  \<^verbatim>\<open>splitListOfDocs\<close> is imported from the langchain package as well. The nodes take
  it as a parameter: a function of the documents, the length function and the budget.
  The third part of the environment is the time at which the call of the model for the
  chunk at a position comes back; it decides the order in which the tasks of the first
  step complete.
\<close>

type_synonym splitter = "document list \<Rightarrow> (document list \<Rightarrow> int) \<Rightarrow> int \<Rightarrow> document list list"

record env =
  llm_of :: llm
  splitListOfDocs :: splitter
  latency :: "nat \<Rightarrow> nat"

text \<open>\<^verbatim>\<open>collapseSummaries\<close> (lines 111-126)\<close>

definition collapseSummaries :: "env \<Rightarrow> config \<Rightarrow> OverallState \<Rightarrow> update eff" where
  "collapseSummaries ev cfg state =
     (let docLists = splitListOfDocs ev (collapsedSummaries state) lengthFunction (tokenMax cfg)
      in bind_eff (collapse_loop (llm_of ev) docLists [])
           (\<lambda>results. return_eff (no_update\<lparr>upd_collapsedSummaries := Some results\<rparr>)))"

subsection \<open>The graph (lines 140-155)\<close>

datatype node = GenerateSummary | CollectSummaries | CollapseSummaries | GenerateFinalSummary

text \<open>\<^verbatim>\<open>shouldCollapse\<close> (lines 76-83)\<close>

definition shouldCollapse :: "config \<Rightarrow> OverallState \<Rightarrow> node" where
  "shouldCollapse cfg state =
     (let numTokens = lengthFunction (collapsedSummaries state)
      in if numTokens > tokenMax cfg then CollapseSummaries else GenerateFinalSummary)"

text \<open>\<^verbatim>\<open>mapSummaries\<close> (lines 36-41): one \<^verbatim>\<open>Send\<close> to \<^verbatim>\<open>generateSummary\<close> for each content.\<close>

datatype send = Send node jsstring

definition mapSummaries :: "OverallState \<Rightarrow> send list" where
  "mapSummaries state = map (\<lambda>content. Send GenerateSummary content) (contents state)"

text \<open>
  The edges leaving a node, evaluated on the state the node has just updated:
  \<^verbatim>\<open>generateSummary -> collectSummaries\<close>, the conditional edges on \<^verbatim>\<open>shouldCollapse\<close>
  from \<^verbatim>\<open>collectSummaries\<close> and from \<^verbatim>\<open>collapseSummaries\<close>, and
  \<^verbatim>\<open>generateFinalSummary -> __end__\<close> (\<open>None\<close>).
\<close>

fun next_node :: "config \<Rightarrow> node \<Rightarrow> OverallState \<Rightarrow> node option" where
  "next_node cfg GenerateSummary state = Some CollectSummaries"
| "next_node cfg CollectSummaries state = Some (shouldCollapse cfg state)"
| "next_node cfg CollapseSummaries state = Some (shouldCollapse cfg state)"
| "next_node cfg GenerateFinalSummary state = None"

text \<open>
  The function registered for a node that runs on the whole state (\<^verbatim>\<open>addNode\<close>).
  No edge leads to \<^verbatim>\<open>generateSummary\<close>: it runs only as the target of a \<^verbatim>\<open>Send\<close>
  (see \<open>dispatch\<close> below), and its equation here is never reached by a run.
\<close>

fun run_node :: "env \<Rightarrow> config \<Rightarrow> node \<Rightarrow> OverallState \<Rightarrow> update eff" where
  "run_node ev cfg CollectSummaries state = collectSummaries state"
| "run_node ev cfg CollapseSummaries state = collapseSummaries ev cfg state"
| "run_node ev cfg GenerateFinalSummary state = generateFinalSummary (llm_of ev) state"
| "run_node ev cfg GenerateSummary state = return_eff no_update"

text \<open>
  The tasks of the first step: every \<^verbatim>\<open>Send\<close> of this graph has the target
  \<^verbatim>\<open>generateSummary\<close> and runs it on its own content. All tasks of the step are
  started, in the order of the contents, whether or not one of them is rejected later:
  the model is called once for every chunk. The result is the list of what each task
  returned, in the order of the tasks.
\<close>

fun dispatch :: "llm \<Rightarrow> send list \<Rightarrow> log \<Rightarrow> (error + update) list \<times> log" where
  "dispatch model [] lg = ([], lg)"
| "dispatch model (Send target content # sends) lg =
     (case generateSummary model content lg of
        (result, lg') \<Rightarrow>
          (case dispatch model sends lg' of (results, lg'') \<Rightarrow> (result # results, lg'')))"

text \<open>
  The tasks complete in the order of the times at which their calls come back (tasks
  with the same time in the order of the tasks).
\<close>

definition arrival :: "(nat \<Rightarrow> nat) \<Rightarrow> 'a list \<Rightarrow> 'a list" where
  "arrival back results =
     map snd (sort_key fst (zip (map back [0..<length results]) results))"

text \<open>What completed before the first rejection, and the first rejection.\<close>

fun before_failure :: "(error + 'a) list \<Rightarrow> 'a list" where
  "before_failure [] = []"
| "before_failure (Inl e # results) = []"
| "before_failure (Inr a # results) = a # before_failure results"

fun first_failure :: "(error + 'a) list \<Rightarrow> error option" where
  "first_failure [] = None"
| "first_failure (Inl e # results) = Some e"
| "first_failure (Inr a # results) = first_failure results"

subsection \<open>Running the graph: \<^verbatim>\<open>app.stream\<close> (lines 185-188)\<close>

text \<open>
  What the driver sees of a run: how it ended, the steps the stream yielded (the node
  and the object it returned), the calls of the model, and the number of steps of the
  graph that ran. The runtime is not among the sources; the model takes from it that
  \<^item> one step runs the tasks that are due, and the updates are applied before the edges
    are evaluated;
  \<^item> the object of a task is yielded when the task completes;
  \<^item> a run with nothing due ends;
  \<^item> the limit is tested before the tasks due are looked for: after step number
    \<^verbatim>\<open>recursionLimit\<close> the run fails, also when that step was the last node and
    nothing is due any more.
\<close>

record run =
  outcome :: "error + OverallState"
  events :: "(node \<times> update) list"
  calls :: log
  supersteps :: nat

fun steps :: "env \<Rightarrow> config \<Rightarrow> nat \<Rightarrow> node \<Rightarrow> OverallState \<Rightarrow> (node \<times> update) list \<Rightarrow> nat \<Rightarrow> log \<Rightarrow> run" where
  "steps ev cfg 0 nd state evs n lg =
     \<lparr>outcome = Inl CollapseLimitExceeded, events = evs, calls = lg, supersteps = n\<rparr>"
| "steps ev cfg (Suc fuel) nd state evs n lg =
     (case run_node ev cfg nd state lg of
        (Inl e, lg') \<Rightarrow> \<lparr>outcome = Inl e, events = evs, calls = lg', supersteps = Suc n\<rparr>
      | (Inr u, lg') \<Rightarrow>
          (let state' = apply_update state u; evs' = evs @ [(nd, u)]
           in case next_node cfg nd state' of
                None \<Rightarrow>
                  \<lparr>outcome = (if fuel = 0 then Inl CollapseLimitExceeded else Inr state'),
                   events = evs', calls = lg', supersteps = Suc n\<rparr>
              | Some nd' \<Rightarrow> steps ev cfg fuel nd' state' evs' (Suc n) lg'))"

text \<open>The input \<^verbatim>\<open>{ contents: ... }\<close> written to a fresh state.\<close>

definition initial_state :: "jsstring list \<Rightarrow> OverallState" where
  "initial_state cs = \<lparr>contents = cs, summaries = [], collapsedSummaries = [], finalSummary = None\<rparr>"

text \<open>
  The first step runs the tasks of \<^verbatim>\<open>mapSummaries\<close>. The objects of the tasks are
  yielded in the order of completion, up to the first rejection, which fails the run.
  When no task is rejected the updates are applied in the order of the tasks.
\<close>

definition stream :: "env \<Rightarrow> config \<Rightarrow> jsstring list \<Rightarrow> log \<Rightarrow> run" where
  "stream ev cfg cs lg =
     (let state = initial_state cs; sends = mapSummaries state
      in if sends = [] then \<lparr>outcome = Inr state, events = [], calls = lg, supersteps = 0\<rparr>
         else if recursionLimit cfg = 0
         then \<lparr>outcome = Inl CollapseLimitExceeded, events = [], calls = lg, supersteps = 0\<rparr>
         else
           (case dispatch (llm_of ev) sends lg of
              (results, lg') \<Rightarrow>
                (let arrived = arrival (latency ev) results;
                     yielded = map (\<lambda>u. (GenerateSummary, u)) (before_failure arrived)
                 in case first_failure arrived of
                      Some e \<Rightarrow> \<lparr>outcome = Inl e, events = yielded, calls = lg', supersteps = 1\<rparr>
                    | None \<Rightarrow>
                        steps ev cfg (recursionLimit cfg - 1) CollectSummaries
                          (foldl apply_update state (before_failure results)) yielded 1 lg')))"

subsection \<open>The driver (lines 159-265)\<close>

text \<open>
  \<^verbatim>\<open>showLoadingBar\<close> (lines 165-176). \<^verbatim>\<open>Math.round((current / total) * barLength)\<close>
  with \<^verbatim>\<open>barLength = 30\<close> rounds half-way values up. What is written to the terminal
  is not modelled; what matters to the run is \<^verbatim>\<open>'.'.repeat(barLength - filledLength)\<close>,
  which throws a \<^verbatim>\<open>RangeError\<close> for a negative count. The source computes the
  quotient and the product in doubles, the model in integers: the two agree on whether
  the result is greater than 30 (at the threshold the quotient is that of 61 by 60,
  whose double times 30 is 30.5).
\<close>

datatype crash =
  StreamError error \<comment> \<open>the stream throws; the loop does not catch it\<close>
| RangeError \<comment> \<open>\<^verbatim>\<open>repeat\<close> with a negative count\<close>

definition filledLength :: "nat \<Rightarrow> nat \<Rightarrow> int" where
  "filledLength current tot = (2 * 30 * int current + int tot) div (2 * int tot)"

definition showLoadingBar :: "nat \<Rightarrow> nat \<Rightarrow> crash + unit" where
  "showLoadingBar current tot =
     (if 30 - filledLength current tot < 0 then Inl RangeError else Inr ())"

text \<open>
  The variables of the loop: \<^verbatim>\<open>finalSummary\<close> (\<^verbatim>\<open>null\<close> is \<open>None\<close>),
  \<^verbatim>\<open>summaryCount\<close> and \<^verbatim>\<open>currentStep\<close>.
\<close>

record progress =
  kept :: "update option"
  summaryCount :: nat
  currentStep :: nat

text \<open>
  The body of the loop (lines 195-225) for one step of the stream. A step object has
  the key of one node. \<^verbatim>\<open>step.generateFinalSummary\<close>, the object the node returned, is
  kept only after the loading bar was drawn.
\<close>

fun on_step :: "nat \<Rightarrow> progress \<Rightarrow> node \<times> update \<Rightarrow> crash + progress" where
  "on_step totalSteps p (GenerateSummary, u) =
     (let p' = p\<lparr>summaryCount := summaryCount p + 1, currentStep := currentStep p + 1\<rparr>
      in case showLoadingBar (currentStep p') totalSteps of
           Inl c \<Rightarrow> Inl c | Inr _ \<Rightarrow> Inr p')"
| "on_step totalSteps p (CollectSummaries, u) =
     (let p' = p\<lparr>currentStep := currentStep p + 1\<rparr>
      in case showLoadingBar (currentStep p') totalSteps of
           Inl c \<Rightarrow> Inl c | Inr _ \<Rightarrow> Inr p')"
| "on_step totalSteps p (CollapseSummaries, u) =
     (let p' = p\<lparr>currentStep := currentStep p + 1\<rparr>
      in case showLoadingBar (currentStep p') totalSteps of
           Inl c \<Rightarrow> Inl c | Inr _ \<Rightarrow> Inr p')"
| "on_step totalSteps p (GenerateFinalSummary, u) =
     (let p' = p\<lparr>currentStep := currentStep p + 1\<rparr>
      in case showLoadingBar (currentStep p') totalSteps of
           Inl c \<Rightarrow> Inl c | Inr _ \<Rightarrow> Inr (p'\<lparr>kept := Some u\<rparr>))"

fun on_steps :: "nat \<Rightarrow> progress \<Rightarrow> (node \<times> update) list \<Rightarrow> crash + progress" where
  "on_steps totalSteps p [] = Inr p"
| "on_steps totalSteps p (step # rest) =
     (case on_step totalSteps p step of
        Inl c \<Rightarrow> Inl c | Inr p' \<Rightarrow> on_steps totalSteps p' rest)"

text \<open>
  The text to display (lines 236-251), for the object kept by the loop. The value is an
  object, never a string, so that the first and the last branch of the source are not
  taken. \<^verbatim>\<open>finalSummary.finalSummary\<close> is tested for truthiness: the empty string and
  the absent key fail the test. The object of a node has no key \<^verbatim>\<open>content\<close>. What is
  left is \<^verbatim>\<open>JSON.stringify(finalSummary, null, 2)\<close>, a parameter here.
\<close>

definition summaryText :: "(update \<Rightarrow> jsstring) \<Rightarrow> update \<Rightarrow> jsstring" where
  "summaryText stringify fs =
     (case upd_finalSummary fs of
        Some text \<Rightarrow> if text \<noteq> [] then text else stringify fs
      | None \<Rightarrow> stringify fs)"

datatype display =
  Typed jsstring \<comment> \<open>the text written character by character\<close>
| NoFinalSummary \<comment> \<open>the message of line 264\<close>

text \<open>
  The program from line 159 on, with \<^verbatim>\<open>totalSteps = splitDocs.length + 3\<close>. The steps
  the stream has yielded are handled before an error of the stream is met; no error is
  caught.
\<close>

definition driver :: "(update \<Rightarrow> jsstring) \<Rightarrow> env \<Rightarrow> config \<Rightarrow> jsstring list \<Rightarrow> log \<Rightarrow> crash + display" where
  "driver stringify ev cfg cs lg =
     (let r = stream ev cfg cs lg; totalSteps = length cs + 3
      in case on_steps totalSteps \<lparr>kept = None, summaryCount = 0, currentStep = 0\<rparr> (events r) of
           Inl c \<Rightarrow> Inl c
         | Inr p \<Rightarrow>
             (case outcome r of
                Inl e \<Rightarrow> Inl (StreamError e)
              | Inr state \<Rightarrow>
                  Inr (case kept p of
                         None \<Rightarrow> NoFinalSummary
                       | Some fs \<Rightarrow> Typed (summaryText stringify fs))))"

subsection \<open>The partitioner\<close>

text \<open>
  Modelled from the spec: the body of \<^verbatim>\<open>splitListOfDocs\<close>, which the source imports
  from the langchain package and which is not among the sources. Section 4.2: "scan
  units in order, greedily accumulate into the current sub-list while
  totalCost(current + next) \<le> budget; when adding the next unit would exceed budget,
  close the current sub-list and start a new one with that unit"; a unit that is too
  large alone "still forms its own singleton sub-list", and "an empty input yields an
  empty partition". The first argument after the budget is the sub-list being filled.
\<close>

fun partition_from :: "(document list \<Rightarrow> int) \<Rightarrow> int \<Rightarrow> document list \<Rightarrow> document list \<Rightarrow> document list list" where
  "partition_from cost budget current [] = (if current = [] then [] else [current])"
| "partition_from cost budget current (unit # units) =
     (if current = [] then partition_from cost budget [unit] units
      else if cost (current @ [unit]) \<le> budget
           then partition_from cost budget (current @ [unit]) units
           else current # partition_from cost budget [unit] units)"

definition partition_units :: splitter where
  "partition_units units cost budget = partition_from cost budget [] units"

text \<open>
  Greedy: a sub-list is closed only when the first unit of the next sub-list would not
  fit into it.
\<close>

fun greedy :: "(document list \<Rightarrow> int) \<Rightarrow> int \<Rightarrow> document list list \<Rightarrow> bool" where
  "greedy cost budget [] = True"
| "greedy cost budget [sub] = True"
| "greedy cost budget (sub # nxt # rest) =
     (nxt \<noteq> [] \<and> budget < cost (sub @ [hd nxt]) \<and> greedy cost budget (nxt # rest))"

subsection \<open>Traces\<close>

text \<open>
  Whether, in a trace, every step that follows \<^verbatim>\<open>collectSummaries\<close> or
  \<^verbatim>\<open>collapseSummaries\<close> is the one the comparison of \<^verbatim>\<open>shouldCollapse\<close> names for
  the working set which that step has written.
\<close>

fun routed :: "config \<Rightarrow> (node \<times> update) list \<Rightarrow> bool" where
  "routed cfg [] = True"
| "routed cfg [e] = True"
| "routed cfg ((nd, u) # (nd', u') # rest) =
     ((if nd = CollectSummaries \<or> nd = CollapseSummaries
       then (case upd_collapsedSummaries u of
               None \<Rightarrow> False
             | Some workingSet \<Rightarrow>
                 nd' = (if lengthFunction workingSet > tokenMax cfg
                        then CollapseSummaries else GenerateFinalSummary))
       else True)
      \<and> routed cfg ((nd', u') # rest))"

subsection \<open>Concrete models and values for the examples\<close>

definition js :: "string \<Rightarrow> jsstring" where
  "js cs = map (\<lambda>c. of_nat (of_char c)) cs"

text \<open>A language model that answers every prompt with the same text.\<close>

definition constant_llm :: "jsstring \<Rightarrow> llm" where
  "constant_llm answer lg p = Some answer"

text \<open>A language model that fails on every prompt.\<close>

definition failing_llm :: llm where
  "failing_llm lg p = None"

text \<open>
  A language model whose answer shows what it was asked: the content of a chunk, or the
  contents of the documents joined.
\<close>

definition echo_llm :: llm where
  "echo_llm lg p =
     (case p of MapPrompt content \<Rightarrow> Some content
              | ReducePrompt docs \<Rightarrow> Some (concat (map pageContent docs)))"

text \<open>
  A language model that echoes a chunk and answers a reduce prompt with the joined
  contents of its documents without the first code unit: every reduce shrinks.
\<close>

definition shrinking_llm :: llm where
  "shrinking_llm lg p =
     (case p of MapPrompt content \<Rightarrow> Some content
              | ReducePrompt docs \<Rightarrow> Some (tl (concat (map pageContent docs))))"

text \<open>A language model that echoes a chunk and rejects every reduce prompt.\<close>

definition mute_llm :: llm where
  "mute_llm lg p = (case p of MapPrompt content \<Rightarrow> Some content | ReducePrompt docs \<Rightarrow> None)"

text \<open>A language model that rejects the prompt of one chunk and echoes otherwise.\<close>

definition rejecting_llm :: "jsstring \<Rightarrow> llm" where
  "rejecting_llm chunk lg p = (if p = MapPrompt chunk then None else echo_llm lg p)"

text \<open>
  An environment with the partitioner of the spec, in which the calls for all chunks
  come back at the same time.
\<close>

definition spec_env :: "llm \<Rightarrow> env" where
  "spec_env model = \<lparr>llm_of = model, splitListOfDocs = partition_units, latency = (\<lambda>i. 0)\<rparr>"

text \<open>The same, with the calls coming back in the reverse order of the chunks.\<close>

definition reversed_env :: "llm \<Rightarrow> env" where
  "reversed_env model =
     \<lparr>llm_of = model, splitListOfDocs = partition_units, latency = (\<lambda>i. 100 - i)\<rparr>"

definition tight_config :: config where
  "tight_config = \<lparr>tokenMax = 3, recursionLimit = 10\<rparr>"

definition example_state :: OverallState where
  "example_state =
     \<lparr>contents = [[1, 2, 3, 4], [5, 6, 7]], summaries = [[1, 2, 3], [4], [5, 6]],
      collapsedSummaries = [\<lparr>pageContent = [1, 2, 3]\<rparr>, \<lparr>pageContent = [4]\<rparr>, \<lparr>pageContent = [5, 6]\<rparr>],
      finalSummary = None\<rparr>"

definition small_config :: config where
  "small_config = \<lparr>tokenMax = 4, recursionLimit = 10\<rparr>"

text \<open>
  \<^verbatim>\<open>JSON.stringify({ finalSummary: "" }, null, 2)\<close>: an opening brace, a line with two
  spaces, the quoted key, a colon, a space and two quotes, and a closing brace on its own
  line.
\<close>

definition json_of_empty_final :: jsstring where
  "json_of_empty_final =
     js (''{'' @ [CHR 0x0A] @ ''  '' @ [CHR 0x22] @ ''finalSummary'' @ [CHR 0x22] @ '': ''
         @ [CHR 0x22, CHR 0x22, CHR 0x0A] @ ''}'')"

section \<open>Properties\<close>

subsection \<open>The length function\<close>

lemma foldl_plus_sum_list: "foldl (\<lambda>sum count. sum + count) a xs = (a::int) + sum_list xs"
  by (induction xs arbitrary: a) simp_all

lemma lengthFunction_sum: "lengthFunction documents = sum_list (map tokenCount documents)"
  by (simp add: lengthFunction_def foldl_plus_sum_list)

lemma tokenCount_nonneg: "0 \<le> tokenCount doc"
  by (simp add: tokenCount_def)

lemma lengthFunction_append:
  "lengthFunction (xs @ ys) = lengthFunction xs + lengthFunction ys"
  by (simp add: lengthFunction_sum)

lemma lengthFunction_nonneg: "0 \<le> lengthFunction documents"
  unfolding lengthFunction_sum
  by (induction documents) (simp_all add: tokenCount_nonneg)

text \<open>
  C6. The estimator is a function of its argument alone (it takes no call log and
  returns none): the cost of a unit is a non-negative integer, the cost of a list is the
  sum of the costs of its units, and appending a unit never decreases the cost of a list.
\<close>

theorem lengthFunction_sum_monotone:
  "0 \<le> tokenCount doc
   \<and> lengthFunction documents = sum_list (map tokenCount documents)
   \<and> lengthFunction documents \<le> lengthFunction (documents @ [doc])
   \<and> lengthFunction (documents @ [doc]) = lengthFunction documents + tokenCount doc"
  by (simp add: lengthFunction_sum tokenCount_nonneg)

subsection \<open>The nodes, step by step\<close>

lemma shouldCollapse_iff:
  "shouldCollapse cfg state = CollapseSummaries \<longleftrightarrow> lengthFunction (collapsedSummaries state) > tokenMax cfg"
  by (simp add: shouldCollapse_def Let_def)

lemma collectSummaries_eq:
  "collectSummaries state lg = (Inr (no_update\<lparr>upd_collapsedSummaries := Some (map (\<lambda>summary. \<lparr>pageContent = summary\<rparr>) (summaries state))\<rparr>), lg)"
  by (simp add: collectSummaries_def return_eff_def)

lemma generateFinalSummary_eq:
  "generateFinalSummary model state lg =
     (case model lg (ReducePrompt (collapsedSummaries state)) of
        None \<Rightarrow> (Inl UpstreamError, lg @ [ReducePrompt (collapsedSummaries state)])
      | Some r \<Rightarrow> (Inr (no_update\<lparr>upd_finalSummary := Some r\<rparr>), lg @ [ReducePrompt (collapsedSummaries state)]))"
  by (simp add: generateFinalSummary_def reduce'_def llm_invoke_def bind_eff_def return_eff_def split: option.splits)

lemma generateSummary_eq:
  "generateSummary model content lg =
     (case model lg (MapPrompt content) of
        None \<Rightarrow> (Inl UpstreamError, lg @ [MapPrompt content])
      | Some r \<Rightarrow> (Inr (no_update\<lparr>upd_summaries := Some [r]\<rparr>), lg @ [MapPrompt content]))"
  by (simp add: generateSummary_def llm_invoke_def bind_eff_def return_eff_def split: option.splits)

lemma collapseDocs_eq:
  "collapseDocs docList (reduce' model) lg =
     (case model lg (ReducePrompt docList) of
        None \<Rightarrow> (Inl UpstreamError, lg @ [ReducePrompt docList])
      | Some r \<Rightarrow> (Inr \<lparr>pageContent = r\<rparr>, lg @ [ReducePrompt docList]))"
  by (simp add: collapseDocs_def reduce'_def llm_invoke_def bind_eff_def return_eff_def split: option.splits)

lemma collapse_loop_Inr:
  "collapse_loop model dls acc lg = (Inr results, lg') \<Longrightarrow>
     lg' = lg @ map ReducePrompt dls \<and>
     length results = length acc + length dls \<and>
     take (length acc) results = acc \<and>
     (\<forall>i < length dls. model (lg @ map ReducePrompt (take i dls)) (ReducePrompt (dls ! i))
          = Some (pageContent (results ! (length acc + i))))"
proof (induction dls arbitrary: acc lg)
  case Nil
  then show ?case by (simp add: return_eff_def)
next
  case (Cons dl dls)
  from Cons.prems obtain r where r: "model lg (ReducePrompt dl) = Some r"
    and rest: "collapse_loop model dls (acc @ [\<lparr>pageContent = r\<rparr>]) (lg @ [ReducePrompt dl]) = (Inr results, lg')"
    by (auto simp: bind_eff_def collapseDocs_eq split: option.splits)
  note ih = Cons.IH[OF rest]
  have tk: "take (Suc (length acc)) results = acc @ [\<lparr>pageContent = r\<rparr>]" using ih by simp
  have len: "length results = length acc + length (dl # dls)" using ih by simp
  have tk0: "take (length acc) results = acc"
    using tk by (metis append_eq_conv_conj length_append_singleton take_take length_take)
  have at: "results ! length acc = \<lparr>pageContent = r\<rparr>"
    using tk len by (metis nth_append_length nth_take lessI)
  show ?case
  proof (intro conjI allI impI)
    show "lg' = lg @ map ReducePrompt (dl # dls)" using ih by simp
    show "length results = length acc + length (dl # dls)" by (rule len)
    show "take (length acc) results = acc" by (rule tk0)
  next
    fix i assume i: "i < length (dl # dls)"
    show "model (lg @ map ReducePrompt (take i (dl # dls))) (ReducePrompt ((dl # dls) ! i)) = Some (pageContent (results ! (length acc + i)))"
    proof (cases i)
      case 0
      then show ?thesis using r at by simp
    next
      case (Suc j)
      then have "j < length dls" using i by simp
      with ih have "model ((lg @ [ReducePrompt dl]) @ map ReducePrompt (take j dls)) (ReducePrompt (dls ! j)) = Some (pageContent (results ! (length (acc @ [\<lparr>pageContent = r\<rparr>]) + j)))"
        by blast
      then show ?thesis using Suc by simp
    qed
  qed
qed

subsection \<open>Runs of the graph\<close>

lemma steps_shift:
  "steps ev cfg fuel nd s evs n lg =
     (let r = steps ev cfg fuel nd s [] 0 lg
      in r\<lparr>events := evs @ events r, supersteps := n + supersteps r\<rparr>)"
proof (induction fuel arbitrary: nd s evs n lg)
  case 0
  show ?case by simp
next
  case (Suc fuel)
  show ?case
  proof (cases "run_node ev cfg nd s lg")
    case (Pair res lg')
    show ?thesis
    proof (cases res)
      case (Inl e)
      with Pair show ?thesis by simp
    next
      case (Inr u)
      show ?thesis
      proof (cases "next_node cfg nd (apply_update s u)")
        case None
        with Pair Inr show ?thesis by (simp add: Let_def)
      next
        case (Some nd')
        have a: "steps ev cfg fuel nd' (apply_update s u) (evs @ [(nd, u)]) (Suc n) lg' =
           (let r = steps ev cfg fuel nd' (apply_update s u) [] 0 lg'
            in r\<lparr>events := (evs @ [(nd, u)]) @ events r, supersteps := Suc n + supersteps r\<rparr>)"
          by (rule Suc.IH)
        have b: "steps ev cfg fuel nd' (apply_update s u) [(nd, u)] (Suc 0) lg' =
           (let r = steps ev cfg fuel nd' (apply_update s u) [] 0 lg'
            in r\<lparr>events := [(nd, u)] @ events r, supersteps := Suc 0 + supersteps r\<rparr>)"
          by (rule Suc.IH)
        from Pair Inr Some show ?thesis
          by (simp add: Let_def a b)
      qed
    qed
  qed
qed

lemma steps_bound: "supersteps (steps ev cfg fuel nd s evs n lg) \<le> n + fuel"
proof (induction fuel arbitrary: nd s evs n lg)
  case 0
  show ?case by simp
next
  case (Suc fuel)
  have ih: "\<And>nd' s' evs' lg'. supersteps (steps ev cfg fuel nd' s' evs' (Suc n) lg') \<le> Suc (n + fuel)"
    using Suc.IH[of _ _ _ "Suc n"] by simp
  show ?case
    by (simp add: Let_def ih split: prod.splits sum.splits option.splits)
qed

lemma steps_Suc_fail:
  "run_node ev cfg nd s lg = (Inl e, lg') \<Longrightarrow>
   steps ev cfg (Suc fuel) nd s [] 0 lg = \<lparr>outcome = Inl e, events = [], calls = lg', supersteps = 1\<rparr>"
  by simp

lemma steps_Suc_end:
  "run_node ev cfg nd s lg = (Inr u, lg') \<Longrightarrow> next_node cfg nd (apply_update s u) = None \<Longrightarrow>
   steps ev cfg (Suc fuel) nd s [] 0 lg =
     \<lparr>outcome = (if fuel = 0 then Inl CollapseLimitExceeded else Inr (apply_update s u)),
      events = [(nd, u)], calls = lg', supersteps = 1\<rparr>"
  by (simp add: Let_def)

lemma steps_Suc_go:
  assumes "run_node ev cfg nd s lg = (Inr u, lg')" "next_node cfg nd (apply_update s u) = Some nd'"
  shows "outcome (steps ev cfg (Suc fuel) nd s [] 0 lg) = outcome (steps ev cfg fuel nd' (apply_update s u) [] 0 lg')"
    and "events (steps ev cfg (Suc fuel) nd s [] 0 lg) = (nd, u) # events (steps ev cfg fuel nd' (apply_update s u) [] 0 lg')"
    and "calls (steps ev cfg (Suc fuel) nd s [] 0 lg) = calls (steps ev cfg fuel nd' (apply_update s u) [] 0 lg')"
    and "supersteps (steps ev cfg (Suc fuel) nd s [] 0 lg) = Suc (supersteps (steps ev cfg fuel nd' (apply_update s u) [] 0 lg'))"
  using assms steps_shift[of ev cfg fuel nd' "apply_update s u" "[(nd, u)]" "Suc 0" lg']
  by (simp_all add: Let_def)

lemma steps_cases:
  obtains (limit) "fuel = 0"
  | (fail) e lg' k where "fuel = Suc k" "run_node ev cfg nd s lg = (Inl e, lg')"
  | (finish) u lg' k where "fuel = Suc k" "run_node ev cfg nd s lg = (Inr u, lg')" "next_node cfg nd (apply_update s u) = None"
  | (go) u lg' k nd' where "fuel = Suc k" "run_node ev cfg nd s lg = (Inr u, lg')" "next_node cfg nd (apply_update s u) = Some nd'"
proof (cases fuel)
  case 0
  then show ?thesis by (rule limit)
next
  case (Suc k)
  obtain res lg' where r: "run_node ev cfg nd s lg = (res, lg')" by (cases "run_node ev cfg nd s lg")
  show ?thesis
  proof (cases res)
    case (Inl e)
    with Suc r show ?thesis by (auto intro: fail)
  next
    case (Inr u)
    with Suc r show ?thesis by (cases "next_node cfg nd (apply_update s u)") (auto intro: finish go)
  qed
qed

lemma run_node_writes:
  "run_node ev cfg nd s lg = (Inr u, lg') \<Longrightarrow>
     (nd = CollectSummaries \<longrightarrow> u = no_update\<lparr>upd_collapsedSummaries := Some (map (\<lambda>summary. \<lparr>pageContent = summary\<rparr>) (summaries s))\<rparr> \<and> lg' = lg) \<and>
     (nd = CollapseSummaries \<longrightarrow> (\<exists>results. u = no_update\<lparr>upd_collapsedSummaries := Some results\<rparr>)) \<and>
     (nd = GenerateFinalSummary \<longrightarrow> (\<exists>r. u = no_update\<lparr>upd_finalSummary := Some r\<rparr> \<and> lg' = lg @ [ReducePrompt (collapsedSummaries s)] \<and> llm_of ev lg (ReducePrompt (collapsedSummaries s)) = Some r))"
  by (cases nd)
     (auto simp: collectSummaries_eq generateFinalSummary_eq collapseSummaries_def Let_def bind_eff_def return_eff_def
           split: sum.splits prod.splits option.splits)

lemma collapse_loop_Inl:
  "collapse_loop model dls acc lg = (Inl e, lg') \<Longrightarrow>
     e = UpstreamError \<and> (\<exists>asked p. lg' = asked @ [p] \<and> model asked p = None)"
proof (induction dls arbitrary: acc lg)
  case Nil
  then show ?case by (simp add: return_eff_def)
next
  case (Cons dl dls)
  show ?case
  proof (cases "model lg (ReducePrompt dl)")
    case None
    with Cons.prems show ?thesis by (auto simp: bind_eff_def collapseDocs_eq)
  next
    case (Some r)
    with Cons.prems have "collapse_loop model dls (acc @ [\<lparr>pageContent = r\<rparr>]) (lg @ [ReducePrompt dl]) = (Inl e, lg')"
      by (simp add: bind_eff_def collapseDocs_eq)
    then show ?thesis by (rule Cons.IH)
  qed
qed

lemma run_node_Inl_last:
  "run_node ev cfg nd s lg = (Inl e, lg') \<Longrightarrow>
     e = UpstreamError \<and> (\<exists>asked p. lg' = asked @ [p] \<and> llm_of ev asked p = None)"
proof (cases nd)
  case GenerateSummary
  assume "run_node ev cfg nd s lg = (Inl e, lg')"
  with GenerateSummary show ?thesis by (simp add: return_eff_def)
next
  case CollectSummaries
  assume "run_node ev cfg nd s lg = (Inl e, lg')"
  with CollectSummaries show ?thesis by (simp add: collectSummaries_eq)
next
  case CollapseSummaries
  assume "run_node ev cfg nd s lg = (Inl e, lg')"
  with CollapseSummaries obtain dls where
    "collapse_loop (llm_of ev) dls [] lg = (Inl e, lg')"
    by (auto simp: collapseSummaries_def Let_def bind_eff_def return_eff_def split: sum.splits prod.splits)
  then show ?thesis by (rule collapse_loop_Inl)
next
  case GenerateFinalSummary
  assume "run_node ev cfg nd s lg = (Inl e, lg')"
  with GenerateFinalSummary show ?thesis
    by (auto simp: generateFinalSummary_eq split: option.splits)
qed

lemma run_node_Inl:
  "run_node ev cfg nd s lg = (Inl e, lg') \<Longrightarrow> e = UpstreamError \<and> (\<exists>l p. llm_of ev l p = None)"
  using run_node_Inl_last by blast

subsection \<open>The first step\<close>

lemma dispatch_map:
  "dispatch model (map (\<lambda>content. Send GenerateSummary content) cs) lg = (results, lg') \<Longrightarrow>
     lg' = lg @ map MapPrompt cs \<and> length results = length cs \<and>
     (\<forall>i < length cs.
        results ! i =
          (case model (lg @ map MapPrompt (take i cs)) (MapPrompt (cs ! i)) of
             None \<Rightarrow> Inl UpstreamError
           | Some r \<Rightarrow> Inr (no_update\<lparr>upd_summaries := Some [r]\<rparr>)))"
proof (induction cs arbitrary: lg results lg')
  case Nil
  then show ?case by simp
next
  case (Cons c cs)
  obtain rest lg2 where rest:
    "dispatch model (map (\<lambda>content. Send GenerateSummary content) cs) (lg @ [MapPrompt c]) = (rest, lg2)"
    by (cases "dispatch model (map (\<lambda>content. Send GenerateSummary content) cs) (lg @ [MapPrompt c])")
  have res: "results =
      (case model lg (MapPrompt c) of
         None \<Rightarrow> Inl UpstreamError
       | Some r \<Rightarrow> Inr (no_update\<lparr>upd_summaries := Some [r]\<rparr>)) # rest"
    and lg': "lg' = lg2"
    using Cons.prems rest by (auto simp: generateSummary_eq split: option.splits)
  note ih = Cons.IH[OF rest]
  show ?case
  proof (intro conjI allI impI)
    show "lg' = lg @ map MapPrompt (c # cs)" using ih lg' by simp
    show "length results = length (c # cs)" using ih res by simp
  next
    fix i assume i: "i < length (c # cs)"
    show "results ! i =
          (case model (lg @ map MapPrompt (take i (c # cs))) (MapPrompt ((c # cs) ! i)) of
             None \<Rightarrow> Inl UpstreamError
           | Some r \<Rightarrow> Inr (no_update\<lparr>upd_summaries := Some [r]\<rparr>))"
    proof (cases i)
      case 0
      then show ?thesis using res by simp
    next
      case (Suc j)
      then have "j < length cs" using i by simp
      with ih have "rest ! j =
          (case model ((lg @ [MapPrompt c]) @ map MapPrompt (take j cs)) (MapPrompt (cs ! j)) of
             None \<Rightarrow> Inl UpstreamError
           | Some r \<Rightarrow> Inr (no_update\<lparr>upd_summaries := Some [r]\<rparr>))" by blast
      then show ?thesis using Suc res by simp
    qed
  qed
qed

lemma dispatch_Inl:
  assumes "dispatch model (map (\<lambda>content. Send GenerateSummary content) cs) lg = (results, lg')"
    and "Inl e \<in> set results"
  shows "e = UpstreamError \<and> (\<exists>l p. model l p = None)"
proof -
  from assms(2) obtain i where i: "i < length results" "results ! i = Inl e"
    by (auto simp: in_set_conv_nth)
  with dispatch_map[OF assms(1)] have
    "Inl e = (case model (lg @ map MapPrompt (take i cs)) (MapPrompt (cs ! i)) of
             None \<Rightarrow> Inl UpstreamError
           | Some r \<Rightarrow> Inr (no_update\<lparr>upd_summaries := Some [r]\<rparr>))" by auto
  then show ?thesis by (auto split: option.splits)
qed

lemma dispatch_rejected:
  assumes "dispatch model (map (\<lambda>content. Send GenerateSummary content) cs) lg = (results, lg')"
    and "i < length cs" and "model (lg @ map MapPrompt (take i cs)) (MapPrompt (cs ! i)) = None"
  shows "Inl UpstreamError \<in> set results"
proof -
  from dispatch_map[OF assms(1)] assms(2,3) have "i < length results" "results ! i = Inl UpstreamError"
    by auto
  then show ?thesis by (metis nth_mem)
qed

lemma set_arrival: "set (arrival back results) = set results"
proof -
  have "map snd (zip (map back [0..<length results]) results) = results"
    by simp
  then have "snd ` set (zip (map back [0..<length results]) results) = set results"
    by (metis set_map)
  then show ?thesis by (simp add: arrival_def)
qed

lemma first_failure_Some: "first_failure xs = Some e \<Longrightarrow> Inl e \<in> set xs"
  by (induction xs rule: first_failure.induct) auto

lemma first_failure_None: "first_failure xs = None \<Longrightarrow> Inl e \<notin> set xs"
  by (induction xs rule: first_failure.induct) auto

lemma stream_empty:
  "stream ev cfg [] lg = \<lparr>outcome = Inr (initial_state []), events = [], calls = lg, supersteps = 0\<rparr>"
  by (simp add: stream_def mapSummaries_def initial_state_def)

lemma stream_nolimit:
  "cs \<noteq> [] \<Longrightarrow> recursionLimit cfg = 0 \<Longrightarrow>
   stream ev cfg cs lg = \<lparr>outcome = Inl CollapseLimitExceeded, events = [], calls = lg, supersteps = 0\<rparr>"
  by (simp add: stream_def Let_def mapSummaries_def initial_state_def)

lemma stream_fail:
  "cs \<noteq> [] \<Longrightarrow> recursionLimit cfg \<noteq> 0 \<Longrightarrow>
   dispatch (llm_of ev) (mapSummaries (initial_state cs)) lg = (results, lg') \<Longrightarrow>
   first_failure (arrival (latency ev) results) = Some e \<Longrightarrow>
   stream ev cfg cs lg =
     \<lparr>outcome = Inl e,
      events = map (\<lambda>u. (GenerateSummary, u)) (before_failure (arrival (latency ev) results)),
      calls = lg', supersteps = 1\<rparr>"
  by (simp add: stream_def Let_def mapSummaries_def initial_state_def)

lemma stream_run:
  assumes "cs \<noteq> []" "recursionLimit cfg = Suc k"
    and "dispatch (llm_of ev) (mapSummaries (initial_state cs)) lg = (results, lg')"
    and "first_failure (arrival (latency ev) results) = None"
  shows "outcome (stream ev cfg cs lg) = outcome (steps ev cfg k CollectSummaries (foldl apply_update (initial_state cs) (before_failure results)) [] 0 lg')"
    and "events (stream ev cfg cs lg) = map (\<lambda>u. (GenerateSummary, u)) (before_failure (arrival (latency ev) results)) @ events (steps ev cfg k CollectSummaries (foldl apply_update (initial_state cs) (before_failure results)) [] 0 lg')"
    and "calls (stream ev cfg cs lg) = calls (steps ev cfg k CollectSummaries (foldl apply_update (initial_state cs) (before_failure results)) [] 0 lg')"
    and "supersteps (stream ev cfg cs lg) = Suc (supersteps (steps ev cfg k CollectSummaries (foldl apply_update (initial_state cs) (before_failure results)) [] 0 lg'))"
proof -
  let ?us = "before_failure (arrival (latency ev) results)"
  let ?s1 = "foldl apply_update (initial_state cs) (before_failure results)"
  have ne: "mapSummaries (initial_state cs) \<noteq> []"
    using assms(1) by (simp add: mapSummaries_def initial_state_def)
  have "stream ev cfg cs lg = steps ev cfg k CollectSummaries ?s1
            (map (\<lambda>u. (GenerateSummary, u)) ?us) 1 lg'"
    using ne assms(2,3,4) by (simp add: stream_def Let_def)
  then have eq: "stream ev cfg cs lg =
     (let r = steps ev cfg k CollectSummaries ?s1 [] 0 lg'
      in r\<lparr>events := map (\<lambda>u. (GenerateSummary, u)) ?us @ events r, supersteps := 1 + supersteps r\<rparr>)"
    using steps_shift[of ev cfg k CollectSummaries ?s1 "map (\<lambda>u. (GenerateSummary, u)) ?us" 1 lg']
    by simp
  show "outcome (stream ev cfg cs lg) = outcome (steps ev cfg k CollectSummaries ?s1 [] 0 lg')"
    and "events (stream ev cfg cs lg) = map (\<lambda>u. (GenerateSummary, u)) ?us @ events (steps ev cfg k CollectSummaries ?s1 [] 0 lg')"
    and "calls (stream ev cfg cs lg) = calls (steps ev cfg k CollectSummaries ?s1 [] 0 lg')"
    and "supersteps (stream ev cfg cs lg) = Suc (supersteps (steps ev cfg k CollectSummaries ?s1 [] 0 lg'))"
    by (simp_all add: eq Let_def)
qed

lemma stream_cases:
  obtains (empty) "cs = []"
  | (nolimit) "cs \<noteq> []" "recursionLimit cfg = 0"
  | (fail) e results lg' where "cs \<noteq> []" "recursionLimit cfg \<noteq> 0"
      "dispatch (llm_of ev) (mapSummaries (initial_state cs)) lg = (results, lg')"
      "first_failure (arrival (latency ev) results) = Some e"
  | (run) k results lg' where "cs \<noteq> []" "recursionLimit cfg = Suc k"
      "dispatch (llm_of ev) (mapSummaries (initial_state cs)) lg = (results, lg')"
      "first_failure (arrival (latency ev) results) = None"
proof (cases "cs = []")
  case True
  then show ?thesis by (rule empty)
next
  case False
  show ?thesis
  proof (cases "recursionLimit cfg")
    case 0
    with False show ?thesis by (rule nolimit)
  next
    case (Suc k)
    obtain results lg' where r: "dispatch (llm_of ev) (mapSummaries (initial_state cs)) lg = (results, lg')"
      by (cases "dispatch (llm_of ev) (mapSummaries (initial_state cs)) lg")
    show ?thesis
    proof (cases "first_failure (arrival (latency ev) results)")
      case None
      with False Suc r show ?thesis by (auto intro: run)
    next
      case (Some e)
      with False Suc r show ?thesis by (auto intro: fail)
    qed
  qed
qed

lemma apply_update_collapsed [simp]:
  "apply_update s (no_update\<lparr>upd_collapsedSummaries := Some ws\<rparr>) = s\<lparr>collapsedSummaries := ws\<rparr>"
  by (simp add: apply_update_def no_update_def)

lemma apply_update_final [simp]:
  "apply_update s (no_update\<lparr>upd_finalSummary := Some r\<rparr>) = s\<lparr>finalSummary := Some r\<rparr>"
  by (simp add: apply_update_def no_update_def)

lemma apply_update_summaries [simp]:
  "apply_update s (no_update\<lparr>upd_summaries := Some x\<rparr>) = s\<lparr>summaries := summaries s @ x\<rparr>"
  by (simp add: apply_update_def no_update_def)

lemma next_node_None: "next_node cfg nd s = None \<longleftrightarrow> nd = GenerateFinalSummary"
  by (cases nd) simp_all

lemma run_node_collapsed:
  assumes "run_node ev cfg nd s lg = (Inr u, lg')" "nd = CollectSummaries \<or> nd = CollapseSummaries"
  shows "\<exists>ws. u = no_update\<lparr>upd_collapsedSummaries := Some ws\<rparr>"
  using run_node_writes[OF assms(1)] assms(2) by auto

lemma steps_routed:
  "routed cfg (events (steps ev cfg fuel nd s [] 0 lg)) \<and>
   (events (steps ev cfg fuel nd s [] 0 lg) \<noteq> [] \<longrightarrow> fst (hd (events (steps ev cfg fuel nd s [] 0 lg))) = nd)"
proof (induction fuel arbitrary: nd s lg)
  case 0
  show ?case by simp
next
  case (Suc fuel)
  show ?case
  proof (cases rule: steps_cases[where fuel="Suc fuel" and ev=ev and cfg=cfg and nd=nd and s=s and lg=lg])
    case limit
    then show ?thesis by simp
  next
    case (fail e lg' k)
    then show ?thesis by (simp add: steps_Suc_fail)
  next
    case (finish u lg' k)
    then show ?thesis by (simp add: steps_Suc_end)
  next
    case (go u lg' k nd')
    let ?r = "steps ev cfg fuel nd' (apply_update s u) [] 0 lg'"
    have ev: "events (steps ev cfg (Suc fuel) nd s [] 0 lg) = (nd, u) # events ?r"
      using go steps_Suc_go(2)[of ev cfg nd s lg u lg' nd' fuel] by simp
    have ih: "routed cfg (events ?r)" and ihd: "events ?r \<noteq> [] \<longrightarrow> fst (hd (events ?r)) = nd'"
      using Suc.IH[of nd' "apply_update s u" lg'] by simp_all
    have "routed cfg ((nd, u) # events ?r)"
    proof (cases "events ?r")
      case Nil
      then show ?thesis by simp
    next
      case (Cons e rest)
      obtain n2 u2 where e: "e = (n2, u2)" by (cases e)
      have n2: "n2 = nd'" using ihd Cons e by simp
      show ?thesis
      proof (cases "nd = CollectSummaries \<or> nd = CollapseSummaries")
        case True
        then obtain ws where ws: "u = no_update\<lparr>upd_collapsedSummaries := Some ws\<rparr>"
          using run_node_collapsed[OF go(2)] by blast
        from True go(3) have "nd' = shouldCollapse cfg (apply_update s u)" by auto
        then have "nd' = (if lengthFunction ws > tokenMax cfg then CollapseSummaries else GenerateFinalSummary)"
          by (simp add: ws shouldCollapse_def Let_def)
        then show ?thesis using True ih Cons e n2 ws by (simp add: no_update_def)
      next
        case False
        then show ?thesis using ih Cons e by simp
      qed
    qed
    then show ?thesis using ev by simp
  qed
qed

lemma steps_final:
  "outcome (steps ev cfg fuel nd s [] 0 lg) = Inr s' \<Longrightarrow>
   \<exists>evs0 resp lgf.
     events (steps ev cfg fuel nd s [] 0 lg) = evs0 @ [(GenerateFinalSummary, no_update\<lparr>upd_finalSummary := Some resp\<rparr>)] \<and>
     GenerateFinalSummary \<notin> fst ` set evs0 \<and>
     finalSummary s' = Some resp \<and>
     calls (steps ev cfg fuel nd s [] 0 lg) = lgf @ [ReducePrompt (collapsedSummaries s')] \<and>
     llm_of ev lgf (ReducePrompt (collapsedSummaries s')) = Some resp"
proof (induction fuel arbitrary: nd s lg)
  case 0
  then show ?case by simp
next
  case (Suc fuel)
  show ?case
  proof (cases rule: steps_cases[where fuel="Suc fuel" and ev=ev and cfg=cfg and nd=nd and s=s and lg=lg])
    case limit
    then show ?thesis by simp
  next
    case (fail e lg' k)
    with Suc.prems show ?thesis by (simp add: steps_Suc_fail)
  next
    case (finish u lg' k)
    then have nd: "nd = GenerateFinalSummary" by (simp add: next_node_None)
    from run_node_writes[OF finish(2)] nd obtain r where
      r: "u = no_update\<lparr>upd_finalSummary := Some r\<rparr>" "lg' = lg @ [ReducePrompt (collapsedSummaries s)]"
         "llm_of ev lg (ReducePrompt (collapsedSummaries s)) = Some r" by auto
    have run: "steps ev cfg (Suc fuel) nd s [] 0 lg =
       \<lparr>outcome = (if fuel = 0 then Inl CollapseLimitExceeded else Inr (apply_update s u)),
        events = [(nd, u)], calls = lg', supersteps = 1\<rparr>"
      using finish steps_Suc_end[of ev cfg nd s lg u lg' fuel] by simp
    with Suc.prems have s': "s' = apply_update s u" by (simp split: if_splits)
    show ?thesis
      apply (rule exI[of _ "[]"], rule exI[of _ r], rule exI[of _ lg])
      using run s' r nd by simp
  next
    case (go u lg' k nd')
    let ?r = "steps ev cfg fuel nd' (apply_update s u) [] 0 lg'"
    have nd: "nd \<noteq> GenerateFinalSummary" using go(3) by (cases nd) simp_all
    have o: "outcome ?r = Inr s'"
      using Suc.prems go steps_Suc_go(1)[of ev cfg nd s lg u lg' nd' fuel] by simp
    from Suc.IH[OF o] obtain evs0 resp lgf where
      ih: "events ?r = evs0 @ [(GenerateFinalSummary, no_update\<lparr>upd_finalSummary := Some resp\<rparr>)]"
          "GenerateFinalSummary \<notin> fst ` set evs0" "finalSummary s' = Some resp"
          "calls ?r = lgf @ [ReducePrompt (collapsedSummaries s')]"
          "llm_of ev lgf (ReducePrompt (collapsedSummaries s')) = Some resp" by blast
    have ev: "events (steps ev cfg (Suc fuel) nd s [] 0 lg) = (nd, u) # events ?r"
      and cl: "calls (steps ev cfg (Suc fuel) nd s [] 0 lg) = calls ?r"
      using go steps_Suc_go(2,3)[of ev cfg nd s lg u lg' nd' fuel] by simp_all
    show ?thesis
      apply (rule exI[of _ "(nd, u) # evs0"], rule exI[of _ resp], rule exI[of _ lgf])
      using ev cl ih nd by simp
  qed
qed

lemma steps_final_only:
  "GenerateSummary \<notin> fst ` set (events (steps ev cfg fuel GenerateFinalSummary s [] 0 lg)) \<and>
   CollectSummaries \<notin> fst ` set (events (steps ev cfg fuel GenerateFinalSummary s [] 0 lg)) \<and>
   CollapseSummaries \<notin> fst ` set (events (steps ev cfg fuel GenerateFinalSummary s [] 0 lg))"
proof (cases rule: steps_cases[where fuel=fuel and ev=ev and cfg=cfg and nd=GenerateFinalSummary and s=s and lg=lg])
  case limit
  then show ?thesis by simp
next
  case (fail e lg' k)
  then show ?thesis by (simp add: steps_Suc_fail)
next
  case (finish u lg' k)
  then show ?thesis by (simp add: steps_Suc_end)
next
  case (go u lg' k nd')
  then show ?thesis by simp
qed

lemma steps_limit:
  "outcome (steps ev cfg fuel nd s [] 0 lg) = Inl CollapseLimitExceeded \<Longrightarrow>
   supersteps (steps ev cfg fuel nd s [] 0 lg) = fuel"
proof (induction fuel arbitrary: nd s lg)
  case 0
  show ?case by simp
next
  case (Suc fuel)
  show ?case
  proof (cases rule: steps_cases[where fuel="Suc fuel" and ev=ev and cfg=cfg and nd=nd and s=s and lg=lg])
    case limit
    then show ?thesis by simp
  next
    case (fail e lg' k)
    have "e = UpstreamError" using run_node_Inl[OF fail(2)] by simp
    with fail Suc.prems show ?thesis by (simp add: steps_Suc_fail)
  next
    case (finish u lg' k)
    with Suc.prems show ?thesis by (simp add: steps_Suc_end split: if_splits)
  next
    case (go u lg' k nd')
    with Suc.prems Suc.IH[of nd' "apply_update s u" lg'] show ?thesis
      using steps_Suc_go(1,4)[of ev cfg nd s lg u lg' nd' fuel] by simp
  qed
qed

subsection \<open>The partitioner of the spec\<close>

lemma partition_from_concat:
  "concat (partition_from cost budget current units) = current @ units"
  by (induction units arbitrary: current) simp_all

lemma partition_from_no_empty:
  "[] \<notin> set (partition_from cost budget current units)"
  by (induction units arbitrary: current) simp_all

lemma partition_from_hd:
  "current \<noteq> [] \<Longrightarrow>
     partition_from cost budget current units \<noteq> [] \<and>
     hd (hd (partition_from cost budget current units)) = hd current"
  by (induction units arbitrary: current) simp_all

lemma greedy_Cons:
  "rest \<noteq> [] \<Longrightarrow> hd rest \<noteq> [] \<Longrightarrow> budget < cost (sub @ [hd (hd rest)]) \<Longrightarrow>
     greedy cost budget rest \<Longrightarrow> greedy cost budget (sub # rest)"
  by (cases rest) simp_all

lemma partition_from_greedy:
  "greedy cost budget (partition_from cost budget current units)"
proof (induction units arbitrary: current)
  case Nil
  show ?case by simp
next
  case (Cons unit units)
  have hdu: "partition_from cost budget [unit] units \<noteq> [] \<and>
     hd (hd (partition_from cost budget [unit] units)) = hd [unit]"
    by (rule partition_from_hd) simp
  have ne: "hd (partition_from cost budget [unit] units) \<noteq> []"
    using hdu partition_from_no_empty[of cost budget "[unit]" units]
    by (metis hd_in_set)
  show ?case
    using Cons.IH hdu ne by (auto intro!: greedy_Cons)
qed

lemma partition_from_budget:
  "current = [] \<or> cost current \<le> budget \<or> (\<exists>u. current = [u] \<and> budget < cost [u]) \<Longrightarrow>
   sub \<in> set (partition_from cost budget current units) \<Longrightarrow>
   cost sub \<le> budget \<or> (\<exists>u. sub = [u] \<and> budget < cost [u])"
proof (induction units arbitrary: current)
  case Nil
  then show ?case by (auto split: if_splits)
next
  case (Cons unit units)
  have single: "[unit] = [] \<or> cost [unit] \<le> budget \<or> (\<exists>u. [unit] = [u] \<and> budget < cost [u])"
    by auto
  show ?case
  proof (cases "current = []")
    case True
    with Cons.prems(2) have "sub \<in> set (partition_from cost budget [unit] units)" by simp
    from Cons.IH[OF single this] show ?thesis .
  next
    case False
    show ?thesis
    proof (cases "cost (current @ [unit]) \<le> budget")
      case True
      with False Cons.prems(2) have "sub \<in> set (partition_from cost budget (current @ [unit]) units)" by simp
      moreover from True have "current @ [unit] = [] \<or> cost (current @ [unit]) \<le> budget \<or> (\<exists>u. current @ [unit] = [u] \<and> budget < cost [u])" by simp
      ultimately show ?thesis using Cons.IH by blast
    next
      case gt: False
      with False Cons.prems(2) have "sub = current \<or> sub \<in> set (partition_from cost budget [unit] units)" by simp
      then show ?thesis
      proof
        assume "sub = current"
        with Cons.prems(1) False show ?thesis by blast
      next
        assume "sub \<in> set (partition_from cost budget [unit] units)"
        from Cons.IH[OF single this] show ?thesis .
      qed
    qed
  qed
qed

section \<open>The claims\<close>

text \<open>
  C2. For every list of units and every budget, the partitioner of the spec returns the
  units in their order, each in exactly one sub-list (the sub-lists joined are the
  input), no sub-list is empty, the partition is greedy, a single unit is a singleton
  sub-list whatever it costs, and the empty input gives the empty partition.
\<close>
theorem partition_units_cover_greedy:
  "concat (partition_units units lengthFunction budget) = units
   \<and> [] \<notin> set (partition_units units lengthFunction budget)
   \<and> greedy lengthFunction budget (partition_units units lengthFunction budget)
   \<and> partition_units [u] lengthFunction budget = [[u]]
   \<and> partition_units [] lengthFunction budget = []"
  by (simp add: partition_units_def partition_from_concat partition_from_no_empty
        partition_from_greedy)

text \<open>
  C3. Every sub-list of a partition costs at most the budget, except a singleton whose
  unit alone costs more than the budget.
\<close>
theorem partition_units_budget:
  "sub \<in> set (partition_units units lengthFunction budget) \<Longrightarrow>
     lengthFunction sub \<le> budget \<or> (\<exists>u. sub = [u] \<and> budget < tokenCount u)"
proof -
  assume "sub \<in> set (partition_units units lengthFunction budget)"
  then have "sub \<in> set (partition_from lengthFunction budget [] units)"
    by (simp add: partition_units_def)
  then have "lengthFunction sub \<le> budget \<or> (\<exists>u. sub = [u] \<and> budget < lengthFunction [u])"
    by (rule partition_from_budget[rotated]) simp
  then show ?thesis by (simp add: lengthFunction_sum)
qed

theorem partition_units_budget_witness:
  "[\<lparr>pageContent = [5, 6, 7, 8, 9, 10]\<rparr>]
     \<in> set (partition_units [\<lparr>pageContent = [1, 2, 3]\<rparr>, \<lparr>pageContent = [4]\<rparr>,
          \<lparr>pageContent = [5, 6, 7, 8, 9, 10]\<rparr>, \<lparr>pageContent = [11, 12]\<rparr>] lengthFunction 5)
   \<and> \<not> lengthFunction [\<lparr>pageContent = [5, 6, 7, 8, 9, 10]\<rparr>] \<le> 5
   \<and> 5 < tokenCount \<lparr>pageContent = [5, 6, 7, 8, 9, 10]\<rparr>
   \<and> [\<lparr>pageContent = [1, 2, 3]\<rparr>, \<lparr>pageContent = [4]\<rparr>]
     \<in> set (partition_units [\<lparr>pageContent = [1, 2, 3]\<rparr>, \<lparr>pageContent = [4]\<rparr>,
          \<lparr>pageContent = [5, 6, 7, 8, 9, 10]\<rparr>, \<lparr>pageContent = [11, 12]\<rparr>] lengthFunction 5)
   \<and> lengthFunction [\<lparr>pageContent = [1, 2, 3]\<rparr>, \<lparr>pageContent = [4]\<rparr>] \<le> 5"
  using partition_units_budget[of "[\<lparr>pageContent = [5, 6, 7, 8, 9, 10]\<rparr>]"
      "[\<lparr>pageContent = [1, 2, 3]\<rparr>, \<lparr>pageContent = [4]\<rparr>,
          \<lparr>pageContent = [5, 6, 7, 8, 9, 10]\<rparr>, \<lparr>pageContent = [11, 12]\<rparr>]" 5]
    partition_units_budget[of "[\<lparr>pageContent = [1, 2, 3]\<rparr>, \<lparr>pageContent = [4]\<rparr>]"
      "[\<lparr>pageContent = [1, 2, 3]\<rparr>, \<lparr>pageContent = [4]\<rparr>,
          \<lparr>pageContent = [5, 6, 7, 8, 9, 10]\<rparr>, \<lparr>pageContent = [11, 12]\<rparr>]" 5]
  by (simp add: partition_units_def lengthFunction_sum tokenCount_def)

text \<open>
  C7, as stated, fails: when the model answers with the empty text, the summarizer
  returns the empty text as the summary of the chunk.
\<close>
theorem generateSummary_empty_content_counterexample:
  "generateSummary (constant_llm []) [99, 104, 117, 110, 107] []
     = (Inr (no_update\<lparr>upd_summaries := Some [[]]\<rparr>), [MapPrompt [99, 104, 117, 110, 107]])
   \<and> fst (generateSummary (constant_llm []) [99, 104, 117, 110, 107] []) \<noteq> Inl UpstreamError"
  by (simp add: generateSummary_eq constant_llm_def)

text \<open>
  C7, amended. When the call of the model fails, the summarizer fails with the same
  error after exactly one call (no retry); when the model answers, empty or not, the
  answer is the summary, after exactly one call. A run in which the call for some chunk
  is rejected ends with this error and without a final summary step, and the model was
  called exactly once for each chunk.
\<close>

theorem generateSummary_propagates_failure:
  "(model lg (MapPrompt content) = None \<longrightarrow>
      generateSummary model content lg = (Inl UpstreamError, lg @ [MapPrompt content]))
   \<and> (model lg (MapPrompt content) = Some text \<longrightarrow>
      generateSummary model content lg
        = (Inr (no_update\<lparr>upd_summaries := Some [text]\<rparr>), lg @ [MapPrompt content]))
   \<and> (i < length cs \<longrightarrow>
      llm_of ev (lg @ map MapPrompt (take i cs)) (MapPrompt (cs ! i)) = None \<longrightarrow>
      0 < recursionLimit cfg \<longrightarrow>
        outcome (stream ev cfg cs lg) = Inl UpstreamError
        \<and> calls (stream ev cfg cs lg) = lg @ map MapPrompt cs
        \<and> GenerateFinalSummary \<notin> fst ` set (events (stream ev cfg cs lg)))"
proof (intro conjI impI)
  assume i: "i < length cs"
    and rej: "llm_of ev (lg @ map MapPrompt (take i cs)) (MapPrompt (cs ! i)) = None"
    and lim: "0 < recursionLimit cfg"
  have ms: "mapSummaries (initial_state cs) = map (\<lambda>content. Send GenerateSummary content) cs"
    by (simp add: mapSummaries_def initial_state_def)
  have all: "outcome (stream ev cfg cs lg) = Inl UpstreamError
        \<and> calls (stream ev cfg cs lg) = lg @ map MapPrompt cs
        \<and> GenerateFinalSummary \<notin> fst ` set (events (stream ev cfg cs lg))"
  proof (cases rule: stream_cases[where cs=cs and cfg=cfg and ev=ev and lg=lg])
    case empty
    with i show ?thesis by simp
  next
    case nolimit
    with lim show ?thesis by simp
  next
    case (fail e results lg')
    note d = fail(3)[unfolded ms]
    have "Inl e \<in> set results"
      using first_failure_Some[OF fail(4)] by (simp add: set_arrival)
    then have e: "e = UpstreamError" using dispatch_Inl[OF d] by simp
    have lg': "lg' = lg @ map MapPrompt cs" using dispatch_map[OF d] by simp
    show ?thesis
      unfolding stream_fail[OF fail] using e lg' by auto
  next
    case (run k results lg')
    note d = run(3)[unfolded ms]
    have "Inl UpstreamError \<in> set (arrival (latency ev) results)"
      using dispatch_rejected[OF d i rej] by (simp add: set_arrival)
    with first_failure_None[OF run(4)] show ?thesis by simp
  qed
  from all show "outcome (stream ev cfg cs lg) = Inl UpstreamError" by simp
  from all show "calls (stream ev cfg cs lg) = lg @ map MapPrompt cs" by simp
  from all show "GenerateFinalSummary \<notin> fst ` set (events (stream ev cfg cs lg))" by simp
qed (simp_all add: generateSummary_eq)

lemma example_rejected_run:
  "stream (reversed_env (rejecting_llm [4])) default_config [[1, 2, 3], [4], [5, 6]] [] =
     \<lparr>outcome = Inl UpstreamError,
      events = [(GenerateSummary, no_update\<lparr>upd_summaries := Some [[5, 6]]\<rparr>)],
      calls = [MapPrompt [1, 2, 3], MapPrompt [4], MapPrompt [5, 6]],
      supersteps = 1\<rparr>"
  by code_simp

theorem generateSummary_propagates_failure_witness:
  "failing_llm [] (MapPrompt [97]) = None
   \<and> generateSummary failing_llm [97] [] = (Inl UpstreamError, [MapPrompt [97]])
   \<and> constant_llm [98] [] (MapPrompt [97]) = Some [98]
   \<and> generateSummary (constant_llm [98]) [97] []
        = (Inr (no_update\<lparr>upd_summaries := Some [[98]]\<rparr>), [MapPrompt [97]])
   \<and> llm_of (reversed_env (rejecting_llm [4])) [MapPrompt [1, 2, 3]] (MapPrompt [4]) = None
   \<and> 0 < recursionLimit default_config
   \<and> outcome (stream (reversed_env (rejecting_llm [4])) default_config [[1, 2, 3], [4], [5, 6]] [])
        = Inl UpstreamError
   \<and> calls (stream (reversed_env (rejecting_llm [4])) default_config [[1, 2, 3], [4], [5, 6]] [])
        = [MapPrompt [1, 2, 3], MapPrompt [4], MapPrompt [5, 6]]"
  using generateSummary_propagates_failure[of failing_llm "[]" "[97]" "[98]" 1 "[[1, 2, 3], [4], [5, 6]]"
      "reversed_env (rejecting_llm [4])" default_config]
    generateSummary_propagates_failure[of "constant_llm [98]" "[]" "[97]" "[98]" 1 "[[1, 2, 3], [4], [5, 6]]"
      "reversed_env (rejecting_llm [4])" default_config]
  by (simp add: failing_llm_def constant_llm_def reversed_env_def rejecting_llm_def default_config_def)

text \<open>
  C8. With no chunk, \<^verbatim>\<open>mapSummaries\<close> sends nothing, the run ends at once with no
  step, no call of the model and no final summary, and the driver reports that no final
  summary was made.
\<close>
theorem stream_no_chunks:
  "mapSummaries (initial_state []) = []
   \<and> stream ev cfg [] lg = \<lparr>outcome = Inr (initial_state []), events = [], calls = lg, supersteps = 0\<rparr>
   \<and> finalSummary (initial_state []) = None
   \<and> driver stringify ev cfg [] lg = Inr NoFinalSummary"
  by (simp add: stream_empty driver_def Let_def mapSummaries_def initial_state_def)

lemma collapseSummaries_Inr:
  assumes "collapseSummaries ev cfg s lg = (Inr u, lg')"
  shows "\<exists>results. u = no_update\<lparr>upd_collapsedSummaries := Some results\<rparr> \<and>
     collapse_loop (llm_of ev) (splitListOfDocs ev (collapsedSummaries s) lengthFunction (tokenMax cfg)) [] lg
       = (Inr results, lg')"
  using assms
  by (auto simp: collapseSummaries_def Let_def bind_eff_def return_eff_def split: sum.splits prod.splits)

text \<open>
  C10. The object a node returns has one key: \<^verbatim>\<open>collapsedSummaries\<close> for
  \<^verbatim>\<open>collectSummaries\<close> and \<^verbatim>\<open>collapseSummaries\<close>, \<^verbatim>\<open>finalSummary\<close> for
  \<^verbatim>\<open>generateFinalSummary\<close>, \<^verbatim>\<open>summaries\<close> for \<^verbatim>\<open>generateSummary\<close>; applying it
  leaves the other channels of the state as they were.
\<close>
theorem nodes_write_own_channel:
  "(collectSummaries s lg = (Inr u1, lg1) \<longrightarrow>
      upd_contents u1 = None \<and> upd_summaries u1 = None \<and> upd_finalSummary u1 = None
      \<and> upd_collapsedSummaries u1 \<noteq> None
      \<and> contents (apply_update s u1) = contents s
      \<and> summaries (apply_update s u1) = summaries s
      \<and> finalSummary (apply_update s u1) = finalSummary s)
   \<and> (collapseSummaries ev cfg s lg = (Inr u2, lg2) \<longrightarrow>
      upd_contents u2 = None \<and> upd_summaries u2 = None \<and> upd_finalSummary u2 = None
      \<and> upd_collapsedSummaries u2 \<noteq> None
      \<and> contents (apply_update s u2) = contents s
      \<and> summaries (apply_update s u2) = summaries s
      \<and> finalSummary (apply_update s u2) = finalSummary s)
   \<and> (generateFinalSummary model s lg = (Inr u3, lg3) \<longrightarrow>
      upd_contents u3 = None \<and> upd_summaries u3 = None \<and> upd_collapsedSummaries u3 = None
      \<and> upd_finalSummary u3 \<noteq> None
      \<and> contents (apply_update s u3) = contents s
      \<and> summaries (apply_update s u3) = summaries s
      \<and> collapsedSummaries (apply_update s u3) = collapsedSummaries s)
   \<and> (generateSummary model content lg = (Inr u4, lg4) \<longrightarrow>
      upd_contents u4 = None \<and> upd_collapsedSummaries u4 = None \<and> upd_finalSummary u4 = None
      \<and> upd_summaries u4 \<noteq> None
      \<and> contents (apply_update s u4) = contents s
      \<and> collapsedSummaries (apply_update s u4) = collapsedSummaries s
      \<and> finalSummary (apply_update s u4) = finalSummary s)"
proof (intro conjI impI)
  assume "collectSummaries s lg = (Inr u1, lg1)"
  then have u1: "u1 = no_update\<lparr>upd_collapsedSummaries :=
       Some (map (\<lambda>summary. \<lparr>pageContent = summary\<rparr>) (summaries s))\<rparr>"
    by (simp add: collectSummaries_eq)
  show "upd_contents u1 = None" "upd_summaries u1 = None" "upd_finalSummary u1 = None"
    "upd_collapsedSummaries u1 \<noteq> None" "contents (apply_update s u1) = contents s"
    "summaries (apply_update s u1) = summaries s" "finalSummary (apply_update s u1) = finalSummary s"
    by (simp_all add: u1 no_update_def apply_update_def)
next
  assume "collapseSummaries ev cfg s lg = (Inr u2, lg2)"
  then obtain results where u2: "u2 = no_update\<lparr>upd_collapsedSummaries := Some results\<rparr>"
    using collapseSummaries_Inr by blast
  show "upd_contents u2 = None" "upd_summaries u2 = None" "upd_finalSummary u2 = None"
    "upd_collapsedSummaries u2 \<noteq> None" "contents (apply_update s u2) = contents s"
    "summaries (apply_update s u2) = summaries s" "finalSummary (apply_update s u2) = finalSummary s"
    by (simp_all add: u2 no_update_def apply_update_def)
next
  assume "generateFinalSummary model s lg = (Inr u3, lg3)"
  then obtain r where u3: "u3 = no_update\<lparr>upd_finalSummary := Some r\<rparr>"
    by (auto simp: generateFinalSummary_eq split: option.splits)
  show "upd_contents u3 = None" "upd_summaries u3 = None" "upd_collapsedSummaries u3 = None"
    "upd_finalSummary u3 \<noteq> None" "contents (apply_update s u3) = contents s"
    "summaries (apply_update s u3) = summaries s"
    "collapsedSummaries (apply_update s u3) = collapsedSummaries s"
    by (simp_all add: u3 no_update_def apply_update_def)
next
  assume "generateSummary model content lg = (Inr u4, lg4)"
  then obtain r where u4: "u4 = no_update\<lparr>upd_summaries := Some [r]\<rparr>"
    by (auto simp: generateSummary_eq split: option.splits)
  show "upd_contents u4 = None" "upd_collapsedSummaries u4 = None" "upd_finalSummary u4 = None"
    "upd_summaries u4 \<noteq> None" "contents (apply_update s u4) = contents s"
    "collapsedSummaries (apply_update s u4) = collapsedSummaries s"
    "finalSummary (apply_update s u4) = finalSummary s"
    by (simp_all add: u4 no_update_def apply_update_def)
qed

lemma example_split:
  "splitListOfDocs (spec_env echo_llm) (collapsedSummaries example_state) lengthFunction (tokenMax small_config)
    = [[\<lparr>pageContent = [1, 2, 3]\<rparr>, \<lparr>pageContent = [4]\<rparr>], [\<lparr>pageContent = [5, 6]\<rparr>]]"
  by (simp add: spec_env_def example_state_def small_config_def partition_units_def
      lengthFunction_sum tokenCount_def)

lemma example_collapse:
  "collapseSummaries (spec_env echo_llm) small_config example_state []
     = (Inr (no_update\<lparr>upd_collapsedSummaries := Some [\<lparr>pageContent = [1, 2, 3, 4]\<rparr>, \<lparr>pageContent = [5, 6]\<rparr>]\<rparr>),
        [ReducePrompt [\<lparr>pageContent = [1, 2, 3]\<rparr>, \<lparr>pageContent = [4]\<rparr>], ReducePrompt [\<lparr>pageContent = [5, 6]\<rparr>]])"
  unfolding collapseSummaries_def example_split Let_def
  by (simp add: bind_eff_def return_eff_def collapseDocs_eq spec_env_def echo_llm_def)

theorem nodes_write_own_channel_witness:
  "collectSummaries example_state []
     = (Inr (no_update\<lparr>upd_collapsedSummaries :=
          Some [\<lparr>pageContent = [1, 2, 3]\<rparr>, \<lparr>pageContent = [4]\<rparr>, \<lparr>pageContent = [5, 6]\<rparr>]\<rparr>), [])
   \<and> collapseSummaries (spec_env echo_llm) small_config example_state []
     = (Inr (no_update\<lparr>upd_collapsedSummaries := Some [\<lparr>pageContent = [1, 2, 3, 4]\<rparr>, \<lparr>pageContent = [5, 6]\<rparr>]\<rparr>),
        [ReducePrompt [\<lparr>pageContent = [1, 2, 3]\<rparr>, \<lparr>pageContent = [4]\<rparr>], ReducePrompt [\<lparr>pageContent = [5, 6]\<rparr>]])
   \<and> generateFinalSummary echo_llm example_state []
     = (Inr (no_update\<lparr>upd_finalSummary := Some [1, 2, 3, 4, 5, 6]\<rparr>),
        [ReducePrompt [\<lparr>pageContent = [1, 2, 3]\<rparr>, \<lparr>pageContent = [4]\<rparr>, \<lparr>pageContent = [5, 6]\<rparr>]])
   \<and> generateSummary echo_llm [5, 6, 7] [] = (Inr (no_update\<lparr>upd_summaries := Some [[5, 6, 7]]\<rparr>), [MapPrompt [5, 6, 7]])
   \<and> contents (apply_update example_state (no_update\<lparr>upd_collapsedSummaries := Some [\<lparr>pageContent = [1, 2, 3, 4]\<rparr>, \<lparr>pageContent = [5, 6]\<rparr>]\<rparr>))
       = [[1, 2, 3, 4], [5, 6, 7]]
   \<and> summaries (apply_update example_state (no_update\<lparr>upd_collapsedSummaries := Some [\<lparr>pageContent = [1, 2, 3, 4]\<rparr>, \<lparr>pageContent = [5, 6]\<rparr>]\<rparr>))
       = [[1, 2, 3], [4], [5, 6]]
   \<and> finalSummary (apply_update example_state (no_update\<lparr>upd_collapsedSummaries := Some [\<lparr>pageContent = [1, 2, 3, 4]\<rparr>, \<lparr>pageContent = [5, 6]\<rparr>]\<rparr>))
       = None"
  using nodes_write_own_channel[of example_state "[]"
      "no_update\<lparr>upd_collapsedSummaries := Some [\<lparr>pageContent = [1, 2, 3]\<rparr>, \<lparr>pageContent = [4]\<rparr>, \<lparr>pageContent = [5, 6]\<rparr>]\<rparr>" "[]"
      "spec_env echo_llm" small_config
      "no_update\<lparr>upd_collapsedSummaries := Some [\<lparr>pageContent = [1, 2, 3, 4]\<rparr>, \<lparr>pageContent = [5, 6]\<rparr>]\<rparr>"
      "[ReducePrompt [\<lparr>pageContent = [1, 2, 3]\<rparr>, \<lparr>pageContent = [4]\<rparr>], ReducePrompt [\<lparr>pageContent = [5, 6]\<rparr>]]"
      echo_llm
      "no_update\<lparr>upd_finalSummary := Some [1, 2, 3, 4, 5, 6]\<rparr>"
      "[ReducePrompt [\<lparr>pageContent = [1, 2, 3]\<rparr>, \<lparr>pageContent = [4]\<rparr>, \<lparr>pageContent = [5, 6]\<rparr>]]"
      "[5, 6, 7]"
      "no_update\<lparr>upd_summaries := Some [[5, 6, 7]]\<rparr>" "[MapPrompt [5, 6, 7]]"]
    example_collapse
  by (simp add: collectSummaries_eq generateFinalSummary_eq generateSummary_eq echo_llm_def)
     (simp add: example_state_def)

text \<open>
  C4. When \<^verbatim>\<open>collapseSummaries\<close> succeeds, the new working set has one document for
  each sub-list of the partition, the document at position \<open>i\<close> holds the answer of the
  model to the reduce prompt of the sub-list at position \<open>i\<close>, and the model was called
  once for each sub-list, in the order of the partition. This holds for every splitter.
\<close>
theorem collapseSummaries_one_per_sublist:
  assumes "collapseSummaries ev cfg s lg = (Inr u, lg')"
  shows "upd_collapsedSummaries u = Some (collapsedSummaries (apply_update s u))
    \<and> length (collapsedSummaries (apply_update s u))
        = length (splitListOfDocs ev (collapsedSummaries s) lengthFunction (tokenMax cfg))
    \<and> (\<forall>i < length (splitListOfDocs ev (collapsedSummaries s) lengthFunction (tokenMax cfg)).
          llm_of ev
            (lg @ map ReducePrompt (take i (splitListOfDocs ev (collapsedSummaries s) lengthFunction (tokenMax cfg))))
            (ReducePrompt (splitListOfDocs ev (collapsedSummaries s) lengthFunction (tokenMax cfg) ! i))
          = Some (pageContent (collapsedSummaries (apply_update s u) ! i)))
    \<and> lg' = lg @ map ReducePrompt (splitListOfDocs ev (collapsedSummaries s) lengthFunction (tokenMax cfg))"
proof -
  from collapseSummaries_Inr[OF assms] obtain results where
    u: "u = no_update\<lparr>upd_collapsedSummaries := Some results\<rparr>"
    and loop: "collapse_loop (llm_of ev) (splitListOfDocs ev (collapsedSummaries s) lengthFunction (tokenMax cfg)) [] lg
       = (Inr results, lg')" by blast
  have ws: "collapsedSummaries (apply_update s u) = results" by (simp add: u)
  from collapse_loop_Inr[OF loop] show ?thesis
    unfolding ws by (simp add: u no_update_def)
qed

theorem collapseSummaries_one_per_sublist_witness:
  "collapseSummaries (spec_env echo_llm) small_config example_state []
     = (Inr (no_update\<lparr>upd_collapsedSummaries := Some [\<lparr>pageContent = [1, 2, 3, 4]\<rparr>, \<lparr>pageContent = [5, 6]\<rparr>]\<rparr>),
        [ReducePrompt [\<lparr>pageContent = [1, 2, 3]\<rparr>, \<lparr>pageContent = [4]\<rparr>], ReducePrompt [\<lparr>pageContent = [5, 6]\<rparr>]])
   \<and> splitListOfDocs (spec_env echo_llm) (collapsedSummaries example_state) lengthFunction (tokenMax small_config)
     = [[\<lparr>pageContent = [1, 2, 3]\<rparr>, \<lparr>pageContent = [4]\<rparr>], [\<lparr>pageContent = [5, 6]\<rparr>]]
   \<and> length (collapsedSummaries (apply_update example_state
        (no_update\<lparr>upd_collapsedSummaries := Some [\<lparr>pageContent = [1, 2, 3, 4]\<rparr>, \<lparr>pageContent = [5, 6]\<rparr>]\<rparr>))) = 2"
  using collapseSummaries_one_per_sublist[OF example_collapse] example_collapse example_split
  by simp

lemma routed_append_gen:
  "routed cfg evs \<Longrightarrow> routed cfg (map (\<lambda>u. (GenerateSummary, u)) us @ evs)"
proof (induction us)
  case Nil
  then show ?case by simp
next
  case (Cons u us)
  show ?case
  proof (cases "map (\<lambda>u. (GenerateSummary, u)) us @ evs")
    case Nil
    then show ?thesis by simp
  next
    case (Cons e rest)
    obtain nd' u' where "e = (nd', u')" by (cases e)
    with Cons Cons.IH[OF Cons.prems] show ?thesis by simp
  qed
qed

lemma steps_no_collect:
  "nd = CollapseSummaries \<or> nd = GenerateFinalSummary \<Longrightarrow>
   CollectSummaries \<notin> fst ` set (events (steps ev cfg fuel nd s [] 0 lg))"
proof (induction fuel arbitrary: nd s lg)
  case 0
  show ?case by simp
next
  case (Suc fuel)
  show ?case
  proof (cases rule: steps_cases[where fuel="Suc fuel" and ev=ev and cfg=cfg and nd=nd and s=s and lg=lg])
    case limit
    then show ?thesis by simp
  next
    case (fail e lg' k)
    then show ?thesis by (simp add: steps_Suc_fail)
  next
    case (finish u lg' k)
    then show ?thesis using Suc.prems by (auto simp: steps_Suc_end)
  next
    case (go u lg' k nd')
    have nd': "nd' = CollapseSummaries \<or> nd' = GenerateFinalSummary"
      using go(3) Suc.prems by (auto simp: shouldCollapse_def Let_def split: if_splits)
    have "events (steps ev cfg (Suc fuel) nd s [] 0 lg) = (nd, u) # events (steps ev cfg fuel nd' (apply_update s u) [] 0 lg')"
      using go steps_Suc_go(2)[of ev cfg nd s lg u lg' nd' fuel] by simp
    then show ?thesis using Suc.IH[OF nd'] Suc.prems by auto
  qed
qed

lemma steps_collect_fits:
  assumes "(CollectSummaries, u) \<in> set (events (steps ev cfg fuel CollectSummaries s [] 0 lg))"
    and "upd_collapsedSummaries u = Some ws" and "lengthFunction ws \<le> tokenMax cfg"
  shows "CollapseSummaries \<notin> fst ` set (events (steps ev cfg fuel CollectSummaries s [] 0 lg))"
proof (cases rule: steps_cases[where fuel=fuel and ev=ev and cfg=cfg and nd=CollectSummaries and s=s and lg=lg])
  case limit
  then show ?thesis by simp
next
  case (fail e lg' k)
  then show ?thesis by (simp add: steps_Suc_fail)
next
  case (finish u0 lg' k)
  then show ?thesis by simp
next
  case (go u0 lg' k nd')
  let ?r = "steps ev cfg k nd' (apply_update s u0) [] 0 lg'"
  have ev: "events (steps ev cfg fuel CollectSummaries s [] 0 lg) = (CollectSummaries, u0) # events ?r"
    using go steps_Suc_go(2)[of ev cfg CollectSummaries s lg u0 lg' nd' k] by simp
  obtain ws0 where u0: "u0 = no_update\<lparr>upd_collapsedSummaries := Some ws0\<rparr>"
    using run_node_collapsed[OF go(2)] by blast
  have nd': "nd' = shouldCollapse cfg (apply_update s u0)" using go(3) by simp
  then have nd'2: "nd' = CollapseSummaries \<or> nd' = GenerateFinalSummary"
    by (auto simp: shouldCollapse_def Let_def)
  have "(CollectSummaries, u) \<notin> set (events ?r)"
    using steps_no_collect[OF nd'2, of ev cfg k "apply_update s u0" lg'] by force
  with assms(1) ev have "u = u0" by simp
  with assms(2) u0 have "ws0 = ws" by (simp add: no_update_def)
  with assms(3) nd' u0 have "nd' = GenerateFinalSummary"
    by (simp add: shouldCollapse_def Let_def)
  then have "CollapseSummaries \<notin> fst ` set (events ?r)"
    using steps_final_only[of ev cfg k "apply_update s u0" lg'] by simp
  with ev show ?thesis by simp
qed

lemma steps_upstream:
  "outcome (steps ev cfg fuel nd s [] 0 lg) = Inl UpstreamError \<Longrightarrow> \<exists>l p. llm_of ev l p = None"
proof (induction fuel arbitrary: nd s lg)
  case 0
  then show ?case by simp
next
  case (Suc fuel)
  show ?case
  proof (cases rule: steps_cases[where fuel="Suc fuel" and ev=ev and cfg=cfg and nd=nd and s=s and lg=lg])
    case limit
    then show ?thesis by simp
  next
    case (fail e lg' k)
    then show ?thesis using run_node_Inl[OF fail(2)] by simp
  next
    case (finish u lg' k)
    with Suc.prems show ?thesis by (simp add: steps_Suc_end split: if_splits)
  next
    case (go u lg' k nd')
    with Suc.prems Suc.IH[of nd' "apply_update s u" lg'] show ?thesis
      using steps_Suc_go(1)[of ev cfg nd s lg u lg' nd' fuel] by simp
  qed
qed

lemma steps_nodes:
  "nd \<noteq> GenerateSummary \<Longrightarrow>
   GenerateSummary \<notin> fst ` set (events (steps ev cfg fuel nd s [] 0 lg))"
proof (induction fuel arbitrary: nd s lg)
  case 0
  show ?case by simp
next
  case (Suc fuel)
  show ?case
  proof (cases rule: steps_cases[where fuel="Suc fuel" and ev=ev and cfg=cfg and nd=nd and s=s and lg=lg])
    case limit
    then show ?thesis by simp
  next
    case (fail e lg' k)
    then show ?thesis by (simp add: steps_Suc_fail)
  next
    case (finish u lg' k)
    then show ?thesis using Suc.prems by (auto simp: steps_Suc_end)
  next
    case (go u lg' k nd')
    have nd': "nd' \<noteq> GenerateSummary"
      using go(3) Suc.prems by (cases nd) (auto simp: shouldCollapse_def Let_def split: if_splits)
    have "events (steps ev cfg (Suc fuel) nd s [] 0 lg) = (nd, u) # events (steps ev cfg fuel nd' (apply_update s u) [] 0 lg')"
      using go steps_Suc_go(2)[of ev cfg nd s lg u lg' nd' fuel] by simp
    then show ?thesis using Suc.IH[OF nd'] Suc.prems by auto
  qed
qed

lemma steps_stop:
  "events (steps ev cfg fuel nd s [] 0 lg) = []
     \<or> fst (last (events (steps ev cfg fuel nd s [] 0 lg))) = CollectSummaries
     \<or> fst (last (events (steps ev cfg fuel nd s [] 0 lg))) = CollapseSummaries \<Longrightarrow>
   (outcome (steps ev cfg fuel nd s [] 0 lg) = Inl CollapseLimitExceeded
      \<and> length (events (steps ev cfg fuel nd s [] 0 lg)) = fuel)
   \<or> (outcome (steps ev cfg fuel nd s [] 0 lg) = Inl UpstreamError
      \<and> (\<exists>asked p. calls (steps ev cfg fuel nd s [] 0 lg) = asked @ [p] \<and> llm_of ev asked p = None))"
proof (induction fuel arbitrary: nd s lg)
  case 0
  show ?case by simp
next
  case (Suc fuel)
  show ?case
  proof (cases rule: steps_cases[where fuel="Suc fuel" and ev=ev and cfg=cfg and nd=nd and s=s and lg=lg])
    case limit
    then show ?thesis by simp
  next
    case (fail e lg' k)
    then show ?thesis using run_node_Inl_last[OF fail(2)] by (simp add: steps_Suc_fail)
  next
    case (finish u lg' k)
    then have "nd = GenerateFinalSummary" by (simp add: next_node_None)
    with finish Suc.prems show ?thesis by (simp add: steps_Suc_end)
  next
    case (go u lg' k nd')
    let ?r = "steps ev cfg fuel nd' (apply_update s u) [] 0 lg'"
    have o: "outcome (steps ev cfg (Suc fuel) nd s [] 0 lg) = outcome ?r"
      and e: "events (steps ev cfg (Suc fuel) nd s [] 0 lg) = (nd, u) # events ?r"
      and c: "calls (steps ev cfg (Suc fuel) nd s [] 0 lg) = calls ?r"
      using go steps_Suc_go(1,2,3)[of ev cfg nd s lg u lg' nd' fuel] by simp_all
    have "events ?r = [] \<or> fst (last (events ?r)) = CollectSummaries
        \<or> fst (last (events ?r)) = CollapseSummaries"
      using Suc.prems e by (cases "events ?r = []") simp_all
    from Suc.IH[OF this] show ?thesis unfolding o e c by simp
  qed
qed

lemma steps_done_fits:
  "nd = CollectSummaries \<or> nd = CollapseSummaries \<Longrightarrow>
   outcome (steps ev cfg fuel nd s [] 0 lg) = Inr s' \<Longrightarrow>
   lengthFunction (collapsedSummaries s') \<le> tokenMax cfg"
proof (induction fuel arbitrary: nd s lg)
  case 0
  then show ?case by simp
next
  case (Suc fuel)
  show ?case
  proof (cases rule: steps_cases[where fuel="Suc fuel" and ev=ev and cfg=cfg and nd=nd and s=s and lg=lg])
    case limit
    then show ?thesis by simp
  next
    case (fail e lg' k)
    with Suc.prems show ?thesis by (simp add: steps_Suc_fail)
  next
    case (finish u lg' k)
    then have "nd = GenerateFinalSummary" by (simp add: next_node_None)
    with Suc.prems show ?thesis by simp
  next
    case (go u lg' k nd')
    let ?s = "apply_update s u"
    have o: "outcome (steps ev cfg fuel nd' ?s [] 0 lg') = Inr s'"
      using Suc.prems(2) go steps_Suc_go(1)[of ev cfg nd s lg u lg' nd' fuel] by simp
    have nd': "nd' = shouldCollapse cfg ?s" using go(3) Suc.prems(1) by auto
    show ?thesis
    proof (cases "lengthFunction (collapsedSummaries ?s) > tokenMax cfg")
      case True
      then have "nd' = CollapseSummaries" using nd' by (simp add: shouldCollapse_def Let_def)
      then show ?thesis using Suc.IH[OF _ o] by simp
    next
      case False
      then have f: "nd' = GenerateFinalSummary" using nd' by (simp add: shouldCollapse_def Let_def)
      show ?thesis
      proof (cases rule: steps_cases[where fuel=fuel and ev=ev and cfg=cfg and nd=nd' and s="?s" and lg=lg'])
        case limit
        with o show ?thesis by simp
      next
        case (fail e lg2 k2)
        with o show ?thesis by (simp add: steps_Suc_fail)
      next
        case (finish u2 lg2 k2)
        from run_node_writes[OF finish(2)] f obtain r where "u2 = no_update\<lparr>upd_finalSummary := Some r\<rparr>"
          by auto
        moreover from o finish have "s' = apply_update ?s u2"
          by (simp add: steps_Suc_end split: if_splits)
        ultimately show ?thesis using False by simp
      next
        case (go u2 lg2 k2 nd2)
        with f show ?thesis by simp
      qed
    qed
  qed
qed

text \<open>
  C1. \<^verbatim>\<open>shouldCollapse\<close> names \<^verbatim>\<open>collapseSummaries\<close> exactly when the total length of
  the working set is greater than \<^verbatim>\<open>tokenMax\<close>, and \<^verbatim>\<open>generateFinalSummary\<close> exactly
  when it is less or equal. It is the edge out of \<^verbatim>\<open>collectSummaries\<close> and out of
  \<^verbatim>\<open>collapseSummaries\<close>. In every run,
  \<^item> each step after one of these two is the one it names for the working set just
    written;
  \<^item> the run stops after one of these two only when all \<^verbatim>\<open>recursionLimit\<close> steps were
    used, or when the call of the model in the step that was due is rejected: otherwise
    the predicate is evaluated again and the step it names runs;
  \<^item> when the working set that \<^verbatim>\<open>collectSummaries\<close> writes fits the budget, no
    \<^verbatim>\<open>collapseSummaries\<close> step runs;
  \<^item> a run that ends with a state (for at least one chunk) ends with a working set that
    fits the budget.
\<close>

theorem shouldCollapse_routes_every_step:
  "(shouldCollapse cfg state = CollapseSummaries
      \<longleftrightarrow> tokenMax cfg < lengthFunction (collapsedSummaries state))
   \<and> (shouldCollapse cfg state = GenerateFinalSummary
      \<longleftrightarrow> lengthFunction (collapsedSummaries state) \<le> tokenMax cfg)
   \<and> next_node cfg CollectSummaries state = Some (shouldCollapse cfg state)
   \<and> next_node cfg CollapseSummaries state = Some (shouldCollapse cfg state)
   \<and> routed cfg (events (stream ev cfg cs lg))
   \<and> ((CollectSummaries, u) \<in> set (events (stream ev cfg cs lg)) \<longrightarrow>
        upd_collapsedSummaries u = Some workingSet \<longrightarrow>
        lengthFunction workingSet \<le> tokenMax cfg \<longrightarrow>
        CollapseSummaries \<notin> fst ` set (events (stream ev cfg cs lg)))
   \<and> (events (stream ev cfg cs lg) \<noteq> [] \<longrightarrow>
        fst (last (events (stream ev cfg cs lg))) = CollectSummaries
          \<or> fst (last (events (stream ev cfg cs lg))) = CollapseSummaries \<longrightarrow>
        (outcome (stream ev cfg cs lg) = Inl CollapseLimitExceeded
           \<and> Suc (length (filter (\<lambda>e. fst e \<noteq> GenerateSummary) (events (stream ev cfg cs lg))))
               = recursionLimit cfg)
        \<or> (outcome (stream ev cfg cs lg) = Inl UpstreamError
           \<and> calls (stream ev cfg cs lg) \<noteq> []
           \<and> llm_of ev (butlast (calls (stream ev cfg cs lg))) (last (calls (stream ev cfg cs lg))) = None))
   \<and> (cs \<noteq> [] \<longrightarrow> outcome (stream ev cfg cs lg) = Inr final \<longrightarrow>
        lengthFunction (collapsedSummaries final) \<le> tokenMax cfg)"
proof (intro conjI impI)
  show "routed cfg (events (stream ev cfg cs lg))"
  proof (cases rule: stream_cases[where cs=cs and cfg=cfg and ev=ev and lg=lg])
    case empty
    then show ?thesis by (simp add: stream_empty)
  next
    case nolimit
    then show ?thesis by (simp add: stream_nolimit)
  next
    case (fail e results lg')
    show ?thesis
      unfolding stream_fail[OF fail]
      using routed_append_gen[of cfg "[]" "before_failure (arrival (latency ev) results)"] by simp
  next
    case (run k results lg')
    show ?thesis
      unfolding stream_run(2)[OF run]
      using steps_routed[of cfg ev k CollectSummaries "foldl apply_update (initial_state cs) (before_failure results)" lg']
      by (simp add: routed_append_gen)
  qed
next
  assume a: "(CollectSummaries, u) \<in> set (events (stream ev cfg cs lg))"
    "upd_collapsedSummaries u = Some workingSet" "lengthFunction workingSet \<le> tokenMax cfg"
  show "CollapseSummaries \<notin> fst ` set (events (stream ev cfg cs lg))"
  proof (cases rule: stream_cases[where cs=cs and cfg=cfg and ev=ev and lg=lg])
    case empty
    then show ?thesis by (simp add: stream_empty)
  next
    case nolimit
    then show ?thesis by (simp add: stream_nolimit)
  next
    case (fail e results lg')
    show ?thesis unfolding stream_fail[OF fail] by auto
  next
    case (run k results lg')
    let ?r = "steps ev cfg k CollectSummaries (foldl apply_update (initial_state cs) (before_failure results)) [] 0 lg'"
    have ev: "events (stream ev cfg cs lg)
        = map (\<lambda>u. (GenerateSummary, u)) (before_failure (arrival (latency ev) results)) @ events ?r"
      by (rule stream_run(2)[OF run])
    with a(1) have "(CollectSummaries, u) \<in> set (events ?r)" by auto
    from steps_collect_fits[OF this a(2,3)] ev show ?thesis by auto
  qed
next
  assume ne: "events (stream ev cfg cs lg) \<noteq> []"
    and l: "fst (last (events (stream ev cfg cs lg))) = CollectSummaries
          \<or> fst (last (events (stream ev cfg cs lg))) = CollapseSummaries"
  show "(outcome (stream ev cfg cs lg) = Inl CollapseLimitExceeded
           \<and> Suc (length (filter (\<lambda>e. fst e \<noteq> GenerateSummary) (events (stream ev cfg cs lg))))
               = recursionLimit cfg)
        \<or> (outcome (stream ev cfg cs lg) = Inl UpstreamError
           \<and> calls (stream ev cfg cs lg) \<noteq> []
           \<and> llm_of ev (butlast (calls (stream ev cfg cs lg))) (last (calls (stream ev cfg cs lg))) = None)"
  proof (cases rule: stream_cases[where cs=cs and cfg=cfg and ev=ev and lg=lg])
    case empty
    with ne show ?thesis by (simp add: stream_empty)
  next
    case nolimit
    with ne show ?thesis by (simp add: stream_nolimit)
  next
    case (fail e results lg')
    from ne l have False
      unfolding stream_fail[OF fail] by (simp add: last_map)
    then show ?thesis ..
  next
    case (run k results lg')
    let ?gs = "map (\<lambda>u. (GenerateSummary, u)) (before_failure (arrival (latency ev) results))"
    let ?r = "steps ev cfg k CollectSummaries (foldl apply_update (initial_state cs) (before_failure results)) [] 0 lg'"
    note sr = stream_run[OF run]
    have rne: "events ?r \<noteq> []"
    proof
      assume "events ?r = []"
      with ne l sr(2) show False by (simp add: last_map)
    qed
    then have lr: "last (events (stream ev cfg cs lg)) = last (events ?r)" using sr(2) by simp
    have "GenerateSummary \<notin> fst ` set (events ?r)"
      by (rule steps_nodes) simp
    then have "\<forall>e \<in> set (events ?r). fst e \<noteq> GenerateSummary" by force
    then have nogs: "filter (\<lambda>e. fst e \<noteq> GenerateSummary) (events ?r) = events ?r"
      by (simp add: filter_id_conv)
    have cnt: "length (filter (\<lambda>e. fst e \<noteq> GenerateSummary) (events (stream ev cfg cs lg))) = length (events ?r)"
      unfolding sr(2) using nogs by (simp add: o_def)
    from l lr have "events ?r = [] \<or> fst (last (events ?r)) = CollectSummaries
        \<or> fst (last (events ?r)) = CollapseSummaries" by simp
    from steps_stop[OF this] show ?thesis
    proof
      assume "outcome ?r = Inl CollapseLimitExceeded \<and> length (events ?r) = k"
      then show ?thesis using sr(1) cnt run(2) by simp
    next
      assume "outcome ?r = Inl UpstreamError \<and> (\<exists>asked p. calls ?r = asked @ [p] \<and> llm_of ev asked p = None)"
      then show ?thesis using sr(1,3) by auto
    qed
  qed
next
  assume ne: "cs \<noteq> []" and o: "outcome (stream ev cfg cs lg) = Inr final"
  show "lengthFunction (collapsedSummaries final) \<le> tokenMax cfg"
  proof (cases rule: stream_cases[where cs=cs and cfg=cfg and ev=ev and lg=lg])
    case empty
    with ne show ?thesis by simp
  next
    case nolimit
    with o show ?thesis by (simp add: stream_nolimit)
  next
    case (fail e results lg')
    with o show ?thesis by (simp add: stream_fail)
  next
    case (run k results lg')
    from o stream_run(1)[OF run] have
      "outcome (steps ev cfg k CollectSummaries (foldl apply_update (initial_state cs) (before_failure results)) [] 0 lg') = Inr final"
      by simp
    from steps_done_fits[OF _ this] show ?thesis by simp
  qed
qed (simp_all add: shouldCollapse_def Let_def)

lemma example_fits_run:
  "stream (spec_env echo_llm) default_config [[1, 2, 3], [4], [5, 6]] [] =
     \<lparr>outcome = Inr \<lparr>contents = [[1, 2, 3], [4], [5, 6]], summaries = [[1, 2, 3], [4], [5, 6]],
          collapsedSummaries = [\<lparr>pageContent = [1, 2, 3]\<rparr>, \<lparr>pageContent = [4]\<rparr>, \<lparr>pageContent = [5, 6]\<rparr>],
          finalSummary = Some [1, 2, 3, 4, 5, 6]\<rparr>,
      events = [(GenerateSummary, no_update\<lparr>upd_summaries := Some [[1, 2, 3]]\<rparr>),
                (GenerateSummary, no_update\<lparr>upd_summaries := Some [[4]]\<rparr>),
                (GenerateSummary, no_update\<lparr>upd_summaries := Some [[5, 6]]\<rparr>),
                (CollectSummaries, no_update\<lparr>upd_collapsedSummaries :=
                   Some [\<lparr>pageContent = [1, 2, 3]\<rparr>, \<lparr>pageContent = [4]\<rparr>, \<lparr>pageContent = [5, 6]\<rparr>]\<rparr>),
                (GenerateFinalSummary, no_update\<lparr>upd_finalSummary := Some [1, 2, 3, 4, 5, 6]\<rparr>)],
      calls = [MapPrompt [1, 2, 3], MapPrompt [4], MapPrompt [5, 6],
               ReducePrompt [\<lparr>pageContent = [1, 2, 3]\<rparr>, \<lparr>pageContent = [4]\<rparr>, \<lparr>pageContent = [5, 6]\<rparr>]],
      supersteps = 3\<rparr>"
  by code_simp

lemma example_shrinking_run:
  "map fst (events (stream (spec_env shrinking_llm) tight_config [[1, 2, 3], [4], [5, 6]] []))
     = [GenerateSummary, GenerateSummary, GenerateSummary, CollectSummaries,
        CollapseSummaries, CollapseSummaries, GenerateFinalSummary]
   \<and> outcome (stream (spec_env shrinking_llm) tight_config [[1, 2, 3], [4], [5, 6]] [])
     = Inr \<lparr>contents = [[1, 2, 3], [4], [5, 6]], summaries = [[1, 2, 3], [4], [5, 6]],
          collapsedSummaries = [\<lparr>pageContent = [3]\<rparr>, \<lparr>pageContent = [6]\<rparr>],
          finalSummary = Some [6]\<rparr>
   \<and> map (upd_collapsedSummaries \<circ> snd)
        (filter (\<lambda>e. fst e = CollapseSummaries)
          (events (stream (spec_env shrinking_llm) tight_config [[1, 2, 3], [4], [5, 6]] [])))
     = [Some [\<lparr>pageContent = [2, 3]\<rparr>, \<lparr>pageContent = [5, 6]\<rparr>],
        Some [\<lparr>pageContent = [3]\<rparr>, \<lparr>pageContent = [6]\<rparr>]]"
  by code_simp

lemma example_stuck_run:
  "outcome (stream (spec_env (constant_llm [1, 2, 3, 4, 5])) small_config [[1, 2, 3]] [])
     = Inl CollapseLimitExceeded
   \<and> map fst (events (stream (spec_env (constant_llm [1, 2, 3, 4, 5])) small_config [[1, 2, 3]] []))
     = [GenerateSummary, CollectSummaries,
        CollapseSummaries, CollapseSummaries, CollapseSummaries, CollapseSummaries,
        CollapseSummaries, CollapseSummaries, CollapseSummaries, CollapseSummaries]"
  by code_simp

lemma example_stuck_last:
  "events (stream (spec_env (constant_llm [1, 2, 3, 4, 5])) small_config [[1, 2, 3]] []) \<noteq> []
   \<and> fst (last (events (stream (spec_env (constant_llm [1, 2, 3, 4, 5])) small_config [[1, 2, 3]] [])))
     = CollapseSummaries"
  by code_simp

lemma example_mute_run:
  "stream (spec_env mute_llm) default_config [[1, 2, 3], [4], [5, 6]] [] =
     \<lparr>outcome = Inl UpstreamError,
      events = [(GenerateSummary, no_update\<lparr>upd_summaries := Some [[1, 2, 3]]\<rparr>),
                (GenerateSummary, no_update\<lparr>upd_summaries := Some [[4]]\<rparr>),
                (GenerateSummary, no_update\<lparr>upd_summaries := Some [[5, 6]]\<rparr>),
                (CollectSummaries, no_update\<lparr>upd_collapsedSummaries :=
                   Some [\<lparr>pageContent = [1, 2, 3]\<rparr>, \<lparr>pageContent = [4]\<rparr>, \<lparr>pageContent = [5, 6]\<rparr>]\<rparr>)],
      calls = [MapPrompt [1, 2, 3], MapPrompt [4], MapPrompt [5, 6],
               ReducePrompt [\<lparr>pageContent = [1, 2, 3]\<rparr>, \<lparr>pageContent = [4]\<rparr>, \<lparr>pageContent = [5, 6]\<rparr>]],
      supersteps = 3\<rparr>"
  by code_simp

theorem shouldCollapse_routes_every_step_witness:
  "(CollectSummaries, no_update\<lparr>upd_collapsedSummaries :=
        Some [\<lparr>pageContent = [1, 2, 3]\<rparr>, \<lparr>pageContent = [4]\<rparr>, \<lparr>pageContent = [5, 6]\<rparr>]\<rparr>)
      \<in> set (events (stream (spec_env echo_llm) default_config [[1, 2, 3], [4], [5, 6]] []))
   \<and> lengthFunction [\<lparr>pageContent = [1, 2, 3]\<rparr>, \<lparr>pageContent = [4]\<rparr>, \<lparr>pageContent = [5, 6]\<rparr>]
        \<le> tokenMax default_config
   \<and> CollapseSummaries \<notin> fst ` set (events (stream (spec_env echo_llm) default_config [[1, 2, 3], [4], [5, 6]] []))
   \<and> routed default_config (events (stream (spec_env echo_llm) default_config [[1, 2, 3], [4], [5, 6]] []))
   \<and> routed tight_config (events (stream (spec_env shrinking_llm) tight_config [[1, 2, 3], [4], [5, 6]] []))
   \<and> map fst (events (stream (spec_env shrinking_llm) tight_config [[1, 2, 3], [4], [5, 6]] []))
       = [GenerateSummary, GenerateSummary, GenerateSummary, CollectSummaries,
          CollapseSummaries, CollapseSummaries, GenerateFinalSummary]
   \<and> lengthFunction (collapsedSummaries
        (projr (outcome (stream (spec_env shrinking_llm) tight_config [[1, 2, 3], [4], [5, 6]] []))))
       \<le> tokenMax tight_config
   \<and> fst (last (events (stream (spec_env (constant_llm [1, 2, 3, 4, 5])) small_config [[1, 2, 3]] [])))
       = CollapseSummaries
   \<and> outcome (stream (spec_env (constant_llm [1, 2, 3, 4, 5])) small_config [[1, 2, 3]] [])
       = Inl CollapseLimitExceeded
   \<and> Suc (length (filter (\<lambda>e. fst e \<noteq> GenerateSummary)
        (events (stream (spec_env (constant_llm [1, 2, 3, 4, 5])) small_config [[1, 2, 3]] [])))) = 10
   \<and> fst (last (events (stream (spec_env mute_llm) default_config [[1, 2, 3], [4], [5, 6]] [])))
       = CollectSummaries
   \<and> outcome (stream (spec_env mute_llm) default_config [[1, 2, 3], [4], [5, 6]] []) = Inl UpstreamError
   \<and> llm_of (spec_env mute_llm)
        (butlast (calls (stream (spec_env mute_llm) default_config [[1, 2, 3], [4], [5, 6]] [])))
        (last (calls (stream (spec_env mute_llm) default_config [[1, 2, 3], [4], [5, 6]] []))) = None"
proof -
  have m: "(CollectSummaries, no_update\<lparr>upd_collapsedSummaries :=
        Some [\<lparr>pageContent = [1, 2, 3]\<rparr>, \<lparr>pageContent = [4]\<rparr>, \<lparr>pageContent = [5, 6]\<rparr>]\<rparr>)
      \<in> set (events (stream (spec_env echo_llm) default_config [[1, 2, 3], [4], [5, 6]] []))"
    by (simp add: example_fits_run)
  have w: "upd_collapsedSummaries (no_update\<lparr>upd_collapsedSummaries :=
        Some [\<lparr>pageContent = [1, 2, 3]\<rparr>, \<lparr>pageContent = [4]\<rparr>, \<lparr>pageContent = [5, 6]\<rparr>]\<rparr>)
      = Some [\<lparr>pageContent = [1, 2, 3]\<rparr>, \<lparr>pageContent = [4]\<rparr>, \<lparr>pageContent = [5, 6]\<rparr>]"
    by (simp add: no_update_def)
  have l: "lengthFunction [\<lparr>pageContent = [1, 2, 3]\<rparr>, \<lparr>pageContent = [4]\<rparr>, \<lparr>pageContent = [5, 6]\<rparr>]
        \<le> tokenMax default_config"
    by (simp add: lengthFunction_sum tokenCount_def default_config_def)
  note t1 = shouldCollapse_routes_every_step[of default_config _ "spec_env echo_llm" "[[1, 2, 3], [4], [5, 6]]" "[]"
      "no_update\<lparr>upd_collapsedSummaries :=
        Some [\<lparr>pageContent = [1, 2, 3]\<rparr>, \<lparr>pageContent = [4]\<rparr>, \<lparr>pageContent = [5, 6]\<rparr>]\<rparr>"
      "[\<lparr>pageContent = [1, 2, 3]\<rparr>, \<lparr>pageContent = [4]\<rparr>, \<lparr>pageContent = [5, 6]\<rparr>]"]
  note t2 = shouldCollapse_routes_every_step[of tight_config _ "spec_env shrinking_llm" "[[1, 2, 3], [4], [5, 6]]" "[]" _ _
      "\<lparr>contents = [[1, 2, 3], [4], [5, 6]], summaries = [[1, 2, 3], [4], [5, 6]],
          collapsedSummaries = [\<lparr>pageContent = [3]\<rparr>, \<lparr>pageContent = [6]\<rparr>],
          finalSummary = Some [6]\<rparr>"]
  note t3 = shouldCollapse_routes_every_step[of small_config _ "spec_env (constant_llm [1, 2, 3, 4, 5])" "[[1, 2, 3]]" "[]"]
  note t4 = shouldCollapse_routes_every_step[of default_config _ "spec_env mute_llm" "[[1, 2, 3], [4], [5, 6]]" "[]"]
  have a: "CollapseSummaries \<notin> fst ` set (events (stream (spec_env echo_llm) default_config [[1, 2, 3], [4], [5, 6]] []))"
    and b: "routed default_config (events (stream (spec_env echo_llm) default_config [[1, 2, 3], [4], [5, 6]] []))"
    using t1 m w l by simp_all
  have c: "routed tight_config (events (stream (spec_env shrinking_llm) tight_config [[1, 2, 3], [4], [5, 6]] []))"
    and d: "lengthFunction (collapsedSummaries
        (projr (outcome (stream (spec_env shrinking_llm) tight_config [[1, 2, 3], [4], [5, 6]] []))))
       \<le> tokenMax tight_config"
    using t2 conjunct1[OF conjunct2[OF example_shrinking_run]] by simp_all
  have e: "Suc (length (filter (\<lambda>e. fst e \<noteq> GenerateSummary)
        (events (stream (spec_env (constant_llm [1, 2, 3, 4, 5])) small_config [[1, 2, 3]] [])))) = 10"
    using t3 example_stuck_last conjunct1[OF example_stuck_run] by (simp add: small_config_def)
  have f: "llm_of (spec_env mute_llm)
        (butlast (calls (stream (spec_env mute_llm) default_config [[1, 2, 3], [4], [5, 6]] [])))
        (last (calls (stream (spec_env mute_llm) default_config [[1, 2, 3], [4], [5, 6]] []))) = None"
    using t4 by (simp add: example_mute_run)
  show ?thesis
    using m l a b c d e f example_stuck_last conjunct1[OF example_stuck_run]
      conjunct1[OF example_shrinking_run]
    by (simp add: example_mute_run)
qed

text \<open>
  C5. For every budget and every input, a run is over after at most \<^verbatim>\<open>recursionLimit\<close>
  steps of the graph. It ends with the limit error only when all these steps were used,
  and, when no call of the model fails, it ends either with the limit error or with a
  state (whose final summary is set, unless there was no chunk).
\<close>
theorem stream_terminates_within_limit:
  "supersteps (stream ev cfg cs lg) \<le> recursionLimit cfg
   \<and> (outcome (stream ev cfg cs lg) = Inl CollapseLimitExceeded \<longrightarrow>
        supersteps (stream ev cfg cs lg) = recursionLimit cfg)
   \<and> ((\<forall>l p. llm_of ev l p \<noteq> None) \<longrightarrow>
        outcome (stream ev cfg cs lg) = Inl CollapseLimitExceeded
        \<or> (\<exists>s. outcome (stream ev cfg cs lg) = Inr s \<and> (cs = [] \<or> finalSummary s \<noteq> None)))"
proof (cases rule: stream_cases[where cs=cs and cfg=cfg and ev=ev and lg=lg])
  case empty
  then show ?thesis by (simp add: stream_empty)
next
  case nolimit
  then show ?thesis by (simp add: stream_nolimit)
next
  case (fail e results lg')
  have ms: "mapSummaries (initial_state cs) = map (\<lambda>content. Send GenerateSummary content) cs"
    by (simp add: mapSummaries_def initial_state_def)
  have "Inl e \<in> set results"
    using first_failure_Some[OF fail(4)] by (simp add: set_arrival)
  then have "e = UpstreamError" "\<exists>l p. llm_of ev l p = None"
    using dispatch_Inl[OF fail(3)[unfolded ms]] by simp_all
  with fail(2) show ?thesis unfolding stream_fail[OF fail] by auto
next
  case (run k results lg')
  let ?r = "steps ev cfg k CollectSummaries (foldl apply_update (initial_state cs) (before_failure results)) [] 0 lg'"
  note sr = stream_run[OF run]
  have b: "supersteps ?r \<le> k" using steps_bound[of ev cfg k CollectSummaries _ "[]" 0 lg'] by simp
  have lim: "outcome ?r = Inl CollapseLimitExceeded \<Longrightarrow> supersteps ?r = k"
    by (rule steps_limit)
  have nofail: "\<forall>l p. llm_of ev l p \<noteq> None \<Longrightarrow> outcome ?r \<noteq> Inl UpstreamError"
    using steps_upstream[of ev cfg k CollectSummaries _ lg'] by blast
  have fin: "\<And>s. outcome ?r = Inr s \<Longrightarrow> finalSummary s \<noteq> None"
    using steps_final[of ev cfg k CollectSummaries _ lg'] by fastforce
  show ?thesis
  proof (intro conjI impI)
    show "supersteps (stream ev cfg cs lg) \<le> recursionLimit cfg" using b run(2) sr(4) by simp
    show "supersteps (stream ev cfg cs lg) = recursionLimit cfg"
      if "outcome (stream ev cfg cs lg) = Inl CollapseLimitExceeded"
      using that lim run(2) sr(1,4) by simp
    show "outcome (stream ev cfg cs lg) = Inl CollapseLimitExceeded
        \<or> (\<exists>s. outcome (stream ev cfg cs lg) = Inr s \<and> (cs = [] \<or> finalSummary s \<noteq> None))"
      if a: "\<forall>l p. llm_of ev l p \<noteq> None"
    proof (cases "outcome ?r")
      case (Inl e)
      with nofail[OF a] have "e = CollapseLimitExceeded" by (cases e) simp_all
      with Inl sr(1) show ?thesis by simp
    next
      case (Inr s)
      with fin[OF Inr] sr(1) show ?thesis by simp
    qed
  qed
qed

theorem stream_terminates_within_limit_witness:
  "(\<forall>l p. llm_of (spec_env (constant_llm [1, 2, 3, 4, 5])) l p \<noteq> None)
   \<and> outcome (stream (spec_env (constant_llm [1, 2, 3, 4, 5])) small_config [[1, 2, 3]] [])
       = Inl CollapseLimitExceeded
   \<and> supersteps (stream (spec_env (constant_llm [1, 2, 3, 4, 5])) small_config [[1, 2, 3]] []) = 10
   \<and> (\<forall>l p. llm_of (spec_env echo_llm) l p \<noteq> None)
   \<and> supersteps (stream (spec_env echo_llm) default_config [[1, 2, 3], [4], [5, 6]] []) \<le> 10
   \<and> finalSummary (projr (outcome (stream (spec_env echo_llm) default_config [[1, 2, 3], [4], [5, 6]] [])))
       = Some [1, 2, 3, 4, 5, 6]"
  using stream_terminates_within_limit[of "spec_env (constant_llm [1, 2, 3, 4, 5])" small_config "[[1, 2, 3]]" "[]"]
    stream_terminates_within_limit[of "spec_env echo_llm" default_config "[[1, 2, 3], [4], [5, 6]]" "[]"]
    conjunct1[OF example_stuck_run]
  by (simp add: example_fits_run) (simp add: spec_env_def constant_llm_def echo_llm_def default_config_def small_config_def split: prompt.splits)

lemma filter_final_none:
  "GenerateFinalSummary \<notin> fst ` set evs \<Longrightarrow> filter (\<lambda>e. fst e = GenerateFinalSummary) evs = []"
  by (induction evs) auto

text \<open>
  What the graph does for the final summary: on every run that ends with a state, for at
  least one chunk, the final summary is a string, written by the last step of the run and
  by no other, and it is the answer of the model to one reduce prompt over the whole
  working set, the last call of the run.
\<close>

lemma final_summary_set_once:
  assumes "outcome (stream ev cfg cs lg) = Inr s" and "cs \<noteq> []"
  shows "\<exists>text before asked.
      finalSummary s = Some text
      \<and> events (stream ev cfg cs lg)
          = before @ [(GenerateFinalSummary, no_update\<lparr>upd_finalSummary := Some text\<rparr>)]
      \<and> GenerateFinalSummary \<notin> fst ` set before
      \<and> length (filter (\<lambda>e. fst e = GenerateFinalSummary) (events (stream ev cfg cs lg))) = 1
      \<and> calls (stream ev cfg cs lg) = asked @ [ReducePrompt (collapsedSummaries s)]
      \<and> llm_of ev asked (ReducePrompt (collapsedSummaries s)) = Some text"
proof (cases rule: stream_cases[where cs=cs and cfg=cfg and ev=ev and lg=lg])
  case empty
  with assms(2) show ?thesis by simp
next
  case nolimit
  with assms(1) show ?thesis by (simp add: stream_nolimit)
next
  case (fail e results lg')
  with assms(1) show ?thesis by (simp add: stream_fail)
next
  case (run k results lg')
  let ?r = "steps ev cfg k CollectSummaries (foldl apply_update (initial_state cs) (before_failure results)) [] 0 lg'"
  note sr = stream_run[OF run]
  from assms(1) sr(1) have o: "outcome ?r = Inr s" by simp
  from steps_final[OF o] obtain evs0 resp lgf where
    f: "events ?r = evs0 @ [(GenerateFinalSummary, no_update\<lparr>upd_finalSummary := Some resp\<rparr>)]"
       "GenerateFinalSummary \<notin> fst ` set evs0" "finalSummary s = Some resp"
       "calls ?r = lgf @ [ReducePrompt (collapsedSummaries s)]"
       "llm_of ev lgf (ReducePrompt (collapsedSummaries s)) = Some resp" by blast
  let ?before = "map (\<lambda>u. (GenerateSummary, u)) (before_failure (arrival (latency ev) results)) @ evs0"
  have e: "events (stream ev cfg cs lg) = ?before @ [(GenerateFinalSummary, no_update\<lparr>upd_finalSummary := Some resp\<rparr>)]"
    using sr(2) f(1) by simp
  have nb: "GenerateFinalSummary \<notin> fst ` set ?before" using f(2) by auto
  have once: "length (filter (\<lambda>e. fst e = GenerateFinalSummary) (events (stream ev cfg cs lg))) = 1"
    unfolding e using filter_final_none[OF nb] by simp
  show ?thesis
    apply (rule exI[of _ resp], rule exI[of _ ?before], rule exI[of _ lgf])
    using f(3,5) e nb once sr(3) f(4) by simp
qed

lemma example_empty_run:
  "stream (spec_env (constant_llm [])) default_config [[1, 2, 3]] [] =
     \<lparr>outcome = Inr \<lparr>contents = [[1, 2, 3]], summaries = [[]],
          collapsedSummaries = [\<lparr>pageContent = []\<rparr>], finalSummary = Some []\<rparr>,
      events = [(GenerateSummary, no_update\<lparr>upd_summaries := Some [[]]\<rparr>),
                (CollectSummaries, no_update\<lparr>upd_collapsedSummaries := Some [\<lparr>pageContent = []\<rparr>]\<rparr>),
                (GenerateFinalSummary, no_update\<lparr>upd_finalSummary := Some []\<rparr>)],
      calls = [MapPrompt [1, 2, 3], ReducePrompt [\<lparr>pageContent = []\<rparr>]],
      supersteps = 3\<rparr>"
  by code_simp

lemma example_empty_driver:
  "driver (\<lambda>fs. json_of_empty_final) (spec_env (constant_llm [])) default_config [[1, 2, 3]] []
     = Inr (Typed json_of_empty_final)"
  by code_simp

lemma example_crashing_driver:
  "driver (\<lambda>fs. []) (spec_env shrinking_llm) tight_config [[1, 2, 3], [4], [5, 6]] [] = Inl RangeError"
  by code_simp

lemma example_typed_driver:
  "driver (\<lambda>fs. []) (spec_env echo_llm) default_config [[1, 2, 3], [4], [5, 6]] []
     = Inr (Typed [1, 2, 3, 4, 5, 6])"
  by code_simp

text \<open>
  C9: on every successful run the final summary, a single string, is the sole output
  delivered. The program departs from it at two inputs. When the model answers the final
  reduce with the empty text, the run ends with the empty string as the final summary,
  and the text the driver writes is the JSON rendering of the object of the last step:
  the truthiness test of line 242 takes the empty string for an absent one. And in a run
  with two \<^verbatim>\<open>collapseSummaries\<close> steps for three chunks the final summary is made, but
  the loading bar of the seventh step of six throws before line 224 keeps it, and the
  driver writes nothing.
\<close>

theorem final_summary_not_delivered:
  "finalSummary (projr (outcome (stream (spec_env (constant_llm [])) default_config [[1, 2, 3]] []))) = Some []
   \<and> driver (\<lambda>fs. json_of_empty_final) (spec_env (constant_llm [])) default_config [[1, 2, 3]] []
       = Inr (Typed json_of_empty_final)
   \<and> json_of_empty_final
       = [123, 10, 32, 32, 34, 102, 105, 110, 97, 108, 83, 117, 109, 109, 97, 114, 121, 34, 58, 32, 34, 34, 10, 125]
   \<and> driver (\<lambda>fs. json_of_empty_final) (spec_env (constant_llm [])) default_config [[1, 2, 3]] []
       \<noteq> Inr (Typed [])
   \<and> finalSummary (projr (outcome (stream (spec_env shrinking_llm) tight_config [[1, 2, 3], [4], [5, 6]] [])))
       = Some [6]
   \<and> driver (\<lambda>fs. []) (spec_env shrinking_llm) tight_config [[1, 2, 3], [4], [5, 6]] [] = Inl RangeError"
proof -
  have j: "json_of_empty_final
       = [123, 10, 32, 32, 34, 102, 105, 110, 97, 108, 83, 117, 109, 109, 97, 114, 121, 34, 58, 32, 34, 34, 10, 125]"
    by code_simp
  show ?thesis
    unfolding example_empty_driver example_crashing_driver
    by (simp add: example_empty_run conjunct1[OF conjunct2[OF example_shrinking_run]]) (simp add: j)
qed

end
